theory Spec2Isabelle
  imports Main
begin

section \<open>The executive-orders scraper and dashboard (EA_Summarizer.py)\<close>

text \<open>
  The script scrapes the listing pages of a web site, fetches every order's detail page,
  summarises the text with a pretrained model and shows a table. The libraries it calls
  (the HTTP client, the HTML parser, the date parser, the summarisation pipeline) are
  not part of the script: what the script observes of them is a parameter of the model.
  Everything the script itself does (the cache, the selector loop, the item loop, the
  pagination loop, the impact label, the table filter) is a definition below.
\<close>

subsection \<open>Values the script handles\<close>

type_synonym url = string

text \<open>An exception object; the string is its message.\<close>

datatype py_exception = PyException string

text \<open>A \<open>datetime.date\<close>: year, month, day, compared in that order.\<close>

datatype date = MkDate (year: nat) (month: nat) (day: nat)

definition date_le :: "date \<Rightarrow> date \<Rightarrow> bool" where
  "date_le a b =
     (year a < year b \<or>
      (year a = year b \<and> (month a < month b \<or> (month a = month b \<and> day a \<le> day b))))"

text \<open>\<open>x >= y\<close> on dates.\<close>

definition date_ge :: "date \<Rightarrow> date \<Rightarrow> bool" where
  "date_ge x y = date_le y x"

subsection \<open>What the script observes of a parsed page\<close>

text \<open>
  An element returned by \<open>detail_soup.find(tag, attrs=attrs)\<close>; the script only reads
  \<open>container.get_text(separator=" ", strip=True)\<close> of it.
\<close>

datatype container = Container (get_text: string)

text \<open>
  A listing item (\<open>li\<close>) as the script reads it:
  \<open>item.find("h2", class_="wp-block-post-title")\<close>, inside it
  \<open>h2.find("a", href=True)\<close> with its stripped text and its \<open>href\<close>, and
  \<open>item.find("time")\<close> with its \<open>datetime\<close> attribute when it has one.
\<close>

datatype a_tag = A_Tag (a_get_text: string) (a_href: url)

datatype h2_tag = H2_Tag (h2_find_a: "a_tag option")

datatype time_tag = Time_Tag (time_datetime: "string option")

datatype li_item = Li_Item (item_find_h2: "h2_tag option") (item_find_time: "time_tag option")

text \<open>
  A \<open>BeautifulSoup\<close> object: \<open>soup_select\<close> is \<open>soup.select(css)\<close>, \<open>soup_find\<close> is
  \<open>soup.find(tag, attrs=attrs)\<close> and \<open>soup_get_text\<close> is
  \<open>soup.get_text(separator=" ", strip=True)\<close>.
\<close>

record soup =
  soup_select :: "string \<Rightarrow> li_item list"
  soup_find :: "string \<Rightarrow> (string \<times> string) list \<Rightarrow> container option"
  soup_get_text :: string

text \<open>\<open>BeautifulSoup(response.content, "html.parser")\<close>: a soup, or an exception.\<close>

datatype html = Unparseable py_exception | Parsed soup

text \<open>\<open>requests.get(url, headers=HEADERS)\<close>: an exception, or a response.\<close>

datatype http_outcome = Raises py_exception | Response (status_code: nat) (content: html)

subsection \<open>Effects\<close>

text \<open>
  The messages of \<open>st.write\<close>, one constructor per message of the script, with the values
  its f-string interpolates.
\<close>

datatype message =
    Using_cached url
  | Fetching_detail url
  | Failed_detail url
  | Exception_in_fetch py_exception
  | Fetching_page url
  | Failed_page url nat
  | No_items nat
  | No_h2
  | No_a
  | Date_error string py_exception
  | No_time string
  | Processing string date
  | Summarization_error string py_exception
  | No_orders_on_page nat
  | Initializing_summarizer
  | Fetching_orders
  | No_orders_found
  | Overview

text \<open>A cell of the table and the table itself (a \<open>pandas.DataFrame\<close>).\<close>

datatype cell = DateCell date | StrCell string

record dataframe =
  columns :: "string list"
  rows :: "cell list list"

text \<open>
  Everything the run does to the outside, in the order it happens: an HTTP GET, a call of
  the summariser with its text, and what is put on the dashboard.
\<close>

datatype event =
    HttpGet url
  | Summarize string
  | Write message
  | Meta_refresh
  | Show_title
  | Date_input date
  | Show_dataframe dataframe

text \<open>
  The state of the process: the module-level dictionary \<open>order_text_cache\<close> and the
  trace of effects so far.
\<close>

record state =
  order_text_cache :: "url \<rightharpoonup> string"
  trace :: "event list"

text \<open>Line 20: \<open>order_text_cache = {}\<close> when the module is loaded; nothing has happened.\<close>

definition initial_state :: state where
  "initial_state = \<lparr>order_text_cache = Map.empty, trace = []\<rparr>"

definition emit :: "event \<Rightarrow> state \<Rightarrow> state" where
  "emit e s = s\<lparr>trace := trace s @ [e]\<rparr>"

definition st_write :: "message \<Rightarrow> state \<Rightarrow> state" where
  "st_write m s = emit (Write m) s"

text \<open>
  The outside world: the answer of \<open>requests.get\<close> may depend on everything that happened
  before (the trace), so a URL requested twice may answer differently;
  \<open>fromisoformat\<close> is \<open>datetime.fromisoformat(s).date()\<close>.
\<close>

record world =
  requests_get :: "event list \<Rightarrow> url \<Rightarrow> http_outcome"
  fromisoformat :: "string \<Rightarrow> py_exception + date"

subsection \<open>fetch_order_text\<close>

text \<open>Lines 47-54: the selectors, in the order the loop tries them.\<close>

definition selectors :: "(string \<times> (string \<times> string) list) list" where
  "selectors =
     [(''article'', []),
      (''div'', [(''class'', ''page-content'')]),
      (''main'', []),
      (''div'', [(''class'', ''content-wrapper'')]),
      (''div'', [(''class'', ''page__content'')]),
      (''div'', [(''class'', ''entry-content'')])]"

text \<open>
  Lines 56-61: the \<open>for\<close> loop over the selectors; the third argument is \<open>order_text\<close>
  as it stands before the iteration. \<open>break\<close> returns at once.
\<close>

fun select_loop :: "soup \<Rightarrow> (string \<times> (string \<times> string) list) list \<Rightarrow> string \<Rightarrow> string" where
  "select_loop sp [] order_text = order_text"
| "select_loop sp ((tag, attrs) # rest) order_text =
     (case soup_find sp tag attrs of
        None \<Rightarrow> select_loop sp rest order_text
      | Some c \<Rightarrow>
          (let order_text' = get_text c
           in if length order_text' > 200 then order_text'
              else select_loop sp rest order_text'))"

text \<open>Lines 55-63: the text extracted from a parsed detail page.\<close>

definition extract_order_text :: "soup \<Rightarrow> string" where
  "extract_order_text sp =
     (let order_text = select_loop sp selectors ''''
      in if order_text = [] \<or> length order_text < 200 then soup_get_text sp
         else order_text)"

text \<open>
  Lines 40-67: the body of the \<open>try\<close>. \<open>Inl\<close> is an exception raised inside it; the
  request is in the trace whether it raised or answered.
\<close>

definition fetch_order_text_try :: "world \<Rightarrow> url \<Rightarrow> state \<Rightarrow> (py_exception + string) \<times> state" where
  "fetch_order_text_try w u s =
     (let s1 = st_write (Fetching_detail u) s;
          s2 = emit (HttpGet u) s1
      in case requests_get w (trace s1) u of
           Raises e \<Rightarrow> (Inl e, s2)
         | Response status body \<Rightarrow>
             if status \<noteq> 200 then (Inr '''', st_write (Failed_detail u) s2)
             else (case body of
                     Unparseable e \<Rightarrow> (Inl e, s2)
                   | Parsed detail_soup \<Rightarrow>
                       (let order_text = extract_order_text detail_soup
                        in (Inr order_text,
                            s2\<lparr>order_text_cache := (order_text_cache s2)(u \<mapsto> order_text)\<rparr>))))"

text \<open>
  Lines 30-70: the whole function. \<open>Inl\<close> would be an exception that reaches the caller.
\<close>

definition fetch_order_text :: "world \<Rightarrow> url \<Rightarrow> state \<Rightarrow> (py_exception + string) \<times> state" where
  "fetch_order_text w u s =
     (case order_text_cache s u of
        Some cached \<Rightarrow> (Inr cached, st_write (Using_cached u) s)
      | None \<Rightarrow>
          (case fetch_order_text_try w u s of
             (Inl e, s') \<Rightarrow> (Inr '''', st_write (Exception_in_fetch e) s')
           | (Inr order_text, s') \<Rightarrow> (Inr order_text, s')))"

subsection \<open>Strings\<close>

text \<open>\<open>str(n)\<close> for a page number: its decimal digits.\<close>

definition digit_char :: "nat \<Rightarrow> char" where
  "digit_char d = char_of (48 + d)"

fun str_nat :: "nat \<Rightarrow> string" where
  "str_nat n = (if n < 10 then [digit_char n] else str_nat (n div 10) @ [digit_char (n mod 10)])"

declare str_nat.simps [simp del]

text \<open>
  \<open>s.lower()\<close>: the letters \<open>A\<close> to \<open>Z\<close> go to \<open>a\<close> to \<open>z\<close>, every other character
  stays. (Beyond ASCII Python lowers more characters, none of them to a letter of
  \<open>emergency\<close>.)
\<close>

definition lower_char :: "char \<Rightarrow> char" where
  "lower_char c =
     (let n = (of_char c :: nat) in if 65 \<le> n \<and> n \<le> 90 then char_of (n + 32) else c)"

definition lower :: "string \<Rightarrow> string" where
  "lower s = map lower_char s"

text \<open>\<open>text.startswith(pat)\<close> and \<open>pat in text\<close> on strings.\<close>

fun startswith :: "string \<Rightarrow> string \<Rightarrow> bool" where
  "startswith text [] = True"
| "startswith [] (p # ps) = False"
| "startswith (c # cs) (p # ps) = (c = p \<and> startswith cs ps)"

fun py_in :: "string \<Rightarrow> string \<Rightarrow> bool" where
  "py_in pat [] = (pat = [])"
| "py_in pat (c # cs) = (startswith (c # cs) pat \<or> py_in pat cs)"

subsection \<open>fetch_executive_orders\<close>

text \<open>Lines 132-139: the dictionary appended for an order, with its six keys.\<close>

record order =
  Date :: date
  Title :: string
  Link :: url
  Summary :: string
  Impact :: string
  Full_Text :: string

text \<open>
  The summariser passed to \<open>fetch_executive_orders\<close>: called on a text it raises or
  returns a list of dictionaries.
\<close>

type_synonym summarizer = "string \<Rightarrow> py_exception + (string \<times> string) list list"

text \<open>Line 124: \<open>summary_output[0]['summary_text']\<close>.\<close>

definition summary_text :: "(string \<times> string) list list \<Rightarrow> py_exception + string" where
  "summary_text summary_output =
     (case summary_output of
        [] \<Rightarrow> Inl (PyException ''IndexError'')
      | d # _ \<Rightarrow>
          (case map_of d ''summary_text'' of
             None \<Rightarrow> Inl (PyException ''KeyError'')
           | Some t \<Rightarrow> Inr t))"

text \<open>Lines 123-124: the body of the \<open>try\<close>, the model's summary of a text.\<close>

definition model_summary :: "summarizer \<Rightarrow> string \<Rightarrow> py_exception + string" where
  "model_summary sm order_text =
     (case sm order_text of
        Inl e \<Rightarrow> Inl e
      | Inr summary_output \<Rightarrow> summary_text summary_output)"

text \<open>Lines 121-129: the summary of an order's text.\<close>

definition make_summary :: "summarizer \<Rightarrow> string \<Rightarrow> string \<Rightarrow> state \<Rightarrow> string \<times> state" where
  "make_summary sm title order_text s =
     (if order_text \<noteq> [] then
        (let s1 = emit (Summarize order_text) s
         in case model_summary sm order_text of
              Inl e \<Rightarrow> (''Summary generation error.'', st_write (Summarization_error title e) s1)
            | Inr summary \<Rightarrow> (summary, s1))
      else ('''', s))"

text \<open>Line 131: the impact label.\<close>

definition impact_of :: "string \<Rightarrow> string" where
  "impact_of order_text = (if py_in ''emergency'' (lower order_text) then ''High'' else ''Moderate'')"

text \<open>
  Lines 96-139: the body of the loop over the items of a page. \<open>Inr None\<close> is
  \<open>continue\<close> (the item is skipped), \<open>Inr (Some o)\<close> is the dictionary appended to
  \<open>page_orders\<close>, \<open>Inl\<close> an exception that leaves the loop.
\<close>

definition process_item ::
  "world \<Rightarrow> summarizer \<Rightarrow> li_item \<Rightarrow> state \<Rightarrow> (py_exception + order option) \<times> state" where
  "process_item w sm item s =
     (case item_find_h2 item of
        None \<Rightarrow> (Inr None, st_write No_h2 s)
      | Some h2 \<Rightarrow>
          (case h2_find_a h2 of
             None \<Rightarrow> (Inr None, st_write No_a s)
           | Some a \<Rightarrow>
               (let title = a_get_text a; link = a_href a
                in case item_find_time item of
                     None \<Rightarrow> (Inr None, st_write (No_time title) s)
                   | Some time \<Rightarrow>
                       (case time_datetime time of
                          None \<Rightarrow> (Inr None, st_write (No_time title) s)
                        | Some dt \<Rightarrow>
                            (case fromisoformat w dt of
                               Inl e \<Rightarrow> (Inr None, st_write (Date_error title e) s)
                             | Inr order_date \<Rightarrow>
                                 (case fetch_order_text w link
                                         (st_write (Processing title order_date) s) of
                                    (Inl e, s2) \<Rightarrow> (Inl e, s2)
                                  | (Inr order_text, s2) \<Rightarrow>
                                      (case make_summary sm title order_text s2 of
                                         (summary, s3) \<Rightarrow>
                                           (Inr (Some \<lparr>Date = order_date, Title = title,
                                                       Link = link, Summary = summary,
                                                       Impact = impact_of order_text,
                                                       Full_Text = order_text\<rparr>),
                                            s3))))))))"

text \<open>Lines 94-139: the loop over the items; the accumulator is \<open>page_orders\<close>.\<close>

fun process_items ::
  "world \<Rightarrow> summarizer \<Rightarrow> li_item list \<Rightarrow> order list \<Rightarrow> state \<Rightarrow> (py_exception + order list) \<times> state" where
  "process_items w sm [] page_orders s = (Inr page_orders, s)"
| "process_items w sm (item # items) page_orders s =
     (case process_item w sm item s of
        (Inl e, s') \<Rightarrow> (Inl e, s')
      | (Inr None, s') \<Rightarrow> process_items w sm items page_orders s'
      | (Inr (Some ord), s') \<Rightarrow> process_items w sm items (page_orders @ [ord]) s')"

text \<open>Lines 76 and 81: the URL of a listing page.\<close>

definition base_url :: string where
  "base_url = ''https://www.whitehouse.gov''"

definition page_url :: "nat \<Rightarrow> url" where
  "page_url page =
     (if page = 1 then base_url @ ''/presidential-actions/''
      else base_url @ ''/presidential-actions/page/'' @ str_nat page @ ''/'')"

text \<open>Line 89: the CSS selector of the listing items.\<close>

definition item_selector :: string where
  "item_selector =
     ''li[data-wp-key^='' @ [CHR 0x27] @ ''post-template-item-'' @ [CHR 0x27] @ '']''"

text \<open>
  Lines 80-146: the \<open>while True\<close> loop, from page \<open>page\<close> on with \<open>orders\<close> collected so
  far. The loop ends only when the site answers so; the first argument bounds the number
  of pages, and \<open>None\<close> says that the bound was reached before the loop ended. \<open>Inl\<close> is
  an exception that leaves the function: the listing request and the parsing of its
  answer are outside every \<open>try\<close>.
\<close>

fun fetch_pages ::
  "nat \<Rightarrow> world \<Rightarrow> summarizer \<Rightarrow> nat \<Rightarrow> order list \<Rightarrow> state \<Rightarrow>
     ((py_exception + order list) \<times> state) option" where
  "fetch_pages 0 w sm page orders s = None"
| "fetch_pages (Suc fuel) w sm page orders s =
     (let s1 = st_write (Fetching_page (page_url page)) s;
          s2 = emit (HttpGet (page_url page)) s1
      in case requests_get w (trace s1) (page_url page) of
           Raises e \<Rightarrow> Some (Inl e, s2)
         | Response status body \<Rightarrow>
             if status \<noteq> 200 then Some (Inr orders, st_write (Failed_page (page_url page) status) s2)
             else (case body of
                     Unparseable e \<Rightarrow> Some (Inl e, s2)
                   | Parsed sp \<Rightarrow>
                       (let items = soup_select sp item_selector
                        in if items = [] then Some (Inr orders, st_write (No_items page) s2)
                           else (case process_items w sm items [] s2 of
                                   (Inl e, s3) \<Rightarrow> Some (Inl e, s3)
                                 | (Inr page_orders, s3) \<Rightarrow>
                                     if page_orders = []
                                     then Some (Inr orders, st_write (No_orders_on_page page) s3)
                                     else fetch_pages fuel w sm (page + 1)
                                            (orders @ page_orders) s3))))"

text \<open>Lines 72-148: the function, starting at page 1 with no orders.\<close>

definition fetch_executive_orders ::
  "nat \<Rightarrow> world \<Rightarrow> summarizer \<Rightarrow> state \<Rightarrow> ((py_exception + order list) \<times> state) option" where
  "fetch_executive_orders fuel w sm s = fetch_pages fuel w sm 1 [] s"


subsection \<open>The table\<close>

text \<open>
  \<open>pd.DataFrame(orders)\<close> for the dictionaries of lines 132-139: one column per key, in
  the order of the keys, one row per order; no column and no row for the empty list.
\<close>

definition order_keys :: "string list" where
  "order_keys = [''Date'', ''Title'', ''Link'', ''Summary'', ''Impact'', ''Full Text'']"

definition order_cells :: "order \<Rightarrow> cell list" where
  "order_cells ord =
     [DateCell (Date ord), StrCell (Title ord), StrCell (Link ord), StrCell (Summary ord),
      StrCell (Impact ord), StrCell (Full_Text ord)]"

definition DataFrame :: "order list \<Rightarrow> dataframe" where
  "DataFrame orders =
     (if orders = [] then \<lparr>columns = [], rows = []\<rparr>
      else \<lparr>columns = order_keys, rows = map order_cells orders\<rparr>)"

text \<open>\<open>df.empty\<close>: an axis of length 0.\<close>

definition df_empty :: "dataframe \<Rightarrow> bool" where
  "df_empty df = (columns df = [] \<or> rows df = [])"

fun index_of :: "string \<Rightarrow> string list \<Rightarrow> nat option" where
  "index_of k [] = None"
| "index_of k (c # cs) = (if c = k then Some 0 else map_option Suc (index_of k cs))"

text \<open>The cell of a row at a position; a row has one cell for each column.\<close>

definition cell_at :: "cell list \<Rightarrow> nat \<Rightarrow> py_exception + cell" where
  "cell_at r i = (if i < length r then Inr (r ! i) else Inl (PyException ''IndexError''))"

text \<open>Running a list of results, stopping at the first exception.\<close>

fun collect :: "(py_exception + 'a) list \<Rightarrow> py_exception + 'a list" where
  "collect [] = Inr []"
| "collect (x # xs) =
     (case x of
        Inl e \<Rightarrow> Inl e
      | Inr v \<Rightarrow> (case collect xs of Inl e \<Rightarrow> Inl e | Inr vs \<Rightarrow> Inr (v # vs)))"

text \<open>\<open>df[k]\<close>: the column named \<open>k\<close>, or \<open>KeyError\<close>.\<close>

definition get_column :: "dataframe \<Rightarrow> string \<Rightarrow> py_exception + cell list" where
  "get_column df k =
     (case index_of k (columns df) of
        None \<Rightarrow> Inl (PyException ''KeyError'')
      | Some i \<Rightarrow> collect (map (\<lambda>r. cell_at r i) (rows df)))"

text \<open>\<open>series >= date_filter\<close>, cell by cell; a string does not compare with a date.\<close>

definition cell_ge :: "date \<Rightarrow> cell \<Rightarrow> py_exception + bool" where
  "cell_ge d c =
     (case c of DateCell x \<Rightarrow> Inr (date_ge x d) | StrCell _ \<Rightarrow> Inl (PyException ''TypeError''))"

definition series_ge :: "cell list \<Rightarrow> date \<Rightarrow> py_exception + bool list" where
  "series_ge series d = collect (map (cell_ge d) series)"

text \<open>\<open>df[mask]\<close>: the rows whose entry of the mask is true.\<close>

definition boolean_index :: "dataframe \<Rightarrow> bool list \<Rightarrow> dataframe" where
  "boolean_index df bs = df\<lparr>rows := map fst (filter snd (zip (rows df) bs))\<rparr>"

text \<open>\<open>df[[k1, ..., kn]]\<close>: the named columns in the order given, or \<open>KeyError\<close>.\<close>

definition select_columns :: "dataframe \<Rightarrow> string list \<Rightarrow> py_exception + dataframe" where
  "select_columns df ks =
     (case those (map (\<lambda>k. index_of k (columns df)) ks) of
        None \<Rightarrow> Inl (PyException ''KeyError'')
      | Some idx \<Rightarrow>
          (case collect (map (\<lambda>r. collect (map (cell_at r) idx)) (rows df)) of
             Inl e \<Rightarrow> Inl e
           | Inr rs \<Rightarrow> Inr \<lparr>columns = ks, rows = rs\<rparr>))"

text \<open>Line 168: the columns handed to \<open>st.dataframe\<close>.\<close>

definition shown_columns :: "string list" where
  "shown_columns = [''Date'', ''Title'', ''Link'', ''Summary'', ''Impact'']"

text \<open>
  Lines 160-168: the table of the orders; \<open>date_filter\<close> is the date that
  \<open>st.date_input\<close> returns, asked for only when there is an order.
\<close>

definition dashboard :: "order list \<Rightarrow> date \<Rightarrow> state \<Rightarrow> (py_exception + unit) \<times> state" where
  "dashboard orders date_filter s =
     (let df = DataFrame orders
      in if df_empty df then (Inr (), st_write No_orders_found s)
         else
           (let s1 = emit (Date_input date_filter) s
            in case get_column df ''Date'' of
                 Inl e \<Rightarrow> (Inl e, s1)
               | Inr series \<Rightarrow>
                   (case series_ge series date_filter of
                      Inl e \<Rightarrow> (Inl e, s1)
                    | Inr date_mask \<Rightarrow>
                        (let df_filtered = boolean_index df date_mask;
                             s2 = st_write Overview s1
                         in case select_columns df_filtered shown_columns of
                              Inl e \<Rightarrow> (Inl e, s2)
                            | Inr shown \<Rightarrow> (Inr (), emit (Show_dataframe shown) s2)))))"

text \<open>
  Lines 150-168: \<open>main\<close>, with the pipeline that \<open>get_summarizer\<close> returns as \<open>sm\<close>.
\<close>

definition main ::
  "nat \<Rightarrow> world \<Rightarrow> summarizer \<Rightarrow> date \<Rightarrow> state \<Rightarrow> ((py_exception + unit) \<times> state) option" where
  "main fuel w sm date_filter s =
     (let s1 = emit Meta_refresh s;
          s2 = emit Show_title s1;
          s3 = st_write Fetching_orders s2;
          s4 = st_write Initializing_summarizer s3
      in case fetch_executive_orders fuel w sm s4 of
           None \<Rightarrow> None
         | Some (Inl e, s5) \<Rightarrow> Some (Inl e, s5)
         | Some (Inr orders, s5) \<Rightarrow> Some (dashboard orders date_filter s5))"


subsection \<open>Notions the properties are stated with\<close>

text \<open>
  The texts of the containers that the selectors of a list find on a page, in the order
  of the selectors.
\<close>

definition found_texts :: "soup \<Rightarrow> (string \<times> (string \<times> string) list) list \<Rightarrow> string list" where
  "found_texts sp sels =
     List.map_filter (\<lambda>(tag, attrs). map_option get_text (soup_find sp tag attrs)) sels"

text \<open>
  A text contains a word case-insensitively when some window of the text, lowered, is the
  lowered word.
\<close>

definition contains_ci :: "string \<Rightarrow> string \<Rightarrow> bool" where
  "contains_ci word text =
     list_ex (\<lambda>i. lower (take (length word) (drop i text)) = lower word) [0..<Suc (length text)]"

text \<open>The URLs requested, the texts given to the summariser and the tables shown in a trace.\<close>

fun http_gets :: "event list \<Rightarrow> url list" where
  "http_gets [] = []"
| "http_gets (HttpGet u # es) = u # http_gets es"
| "http_gets (e # es) = http_gets es"

fun summarizer_calls :: "event list \<Rightarrow> string list" where
  "summarizer_calls [] = []"
| "summarizer_calls (Summarize t # es) = t # summarizer_calls es"
| "summarizer_calls (e # es) = summarizer_calls es"

fun shown_tables :: "event list \<Rightarrow> dataframe list" where
  "shown_tables [] = []"
| "shown_tables (Show_dataframe df # es) = df # shown_tables es"
| "shown_tables (e # es) = shown_tables es"

text \<open>
  A later state of the process: reached by any number of effects and of calls of
  \<open>fetch_order_text\<close>, whatever the world answers. Nothing else in the script touches
  the state.
\<close>

inductive later :: "state \<Rightarrow> state \<Rightarrow> bool" where
  later_refl: "later s s"
| later_emit: "later s s' \<Longrightarrow> later s (emit e s')"
| later_fetch: "later s s' \<Longrightarrow> later s (snd (fetch_order_text w u s'))"

text \<open>
  The \<open>datetime\<close> attribute that the item loop reads, and the items it skips: no
  \<open>h2\<close>, no link in it, no \<open>time\<close> with a \<open>datetime\<close>, or a \<open>datetime\<close> that does not
  parse.
\<close>

definition item_datetime :: "li_item \<Rightarrow> string option" where
  "item_datetime item = (case item_find_time item of None \<Rightarrow> None | Some t \<Rightarrow> time_datetime t)"

definition item_link :: "li_item \<Rightarrow> a_tag option" where
  "item_link item = (case item_find_h2 item of None \<Rightarrow> None | Some h2 \<Rightarrow> h2_find_a h2)"

definition unusable :: "world \<Rightarrow> li_item \<Rightarrow> bool" where
  "unusable w item =
     (item_link item = None \<or>
      (case item_datetime item of None \<Rightarrow> True | Some dt \<Rightarrow> isl (fromisoformat w dt)))"

text \<open>
  A detail fetch that fails: the request raises, or answers with a status other than 200,
  or answers with a page on which the parser raises.
\<close>

definition failed :: "http_outcome \<Rightarrow> bool" where
  "failed r =
     (case r of
        Raises e \<Rightarrow> True
      | Response status body \<Rightarrow>
          (if status = 200 then (case body of Unparseable e \<Rightarrow> True | Parsed sp \<Rightarrow> False)
           else True))"

text \<open>
  An answer to a listing request that raises in \<open>fetch_executive_orders\<close>: the request
  itself, or the parser on an answer with status 200.
\<close>

definition listing_raises :: "http_outcome \<Rightarrow> bool" where
  "listing_raises r =
     (case r of
        Raises e \<Rightarrow> True
      | Response status body \<Rightarrow>
          status = 200 \<and> (case body of Unparseable e \<Rightarrow> True | Parsed sp \<Rightarrow> False))"

subsection \<open>A site to run the script on\<close>

text \<open>
  One listing page with nine items: four that cannot be used, two orders whose detail
  page is fetched (one of them listed twice), one whose detail page answers 503, one
  whose request raises; the second listing page answers 404.
\<close>

definition emergency_text :: string where
  "emergency_text =
     ''By the authority vested in me I declare a national EMERGENCY. '' @ replicate 201 (CHR ''x'')"

definition ex_soup_a :: soup where
  "ex_soup_a =
     \<lparr>soup_select = (\<lambda>css. []),
      soup_find = (\<lambda>tag attrs.
        if tag = ''article'' then Some (Container ''Short teaser'')
        else if tag = ''main'' then Some (Container emergency_text)
        else None),
      soup_get_text = ''Menu Short teaser '' @ emergency_text\<rparr>"

definition ex_soup_c :: soup where
  "ex_soup_c =
     \<lparr>soup_select = (\<lambda>css. []), soup_find = (\<lambda>tag attrs. None),
      soup_get_text = ''Plain notice''\<rparr>"

definition ex_time :: "string \<Rightarrow> time_tag option" where
  "ex_time dt = Some (Time_Tag (Some dt))"

definition ex_h2 :: "string \<Rightarrow> url \<Rightarrow> h2_tag option" where
  "ex_h2 title link = Some (H2_Tag (Some (A_Tag title link)))"

definition ex_items :: "li_item list" where
  "ex_items =
     [Li_Item None (ex_time ''2025-01-20''),
      Li_Item (ex_h2 ''Order A'' ''https://wh.gov/a'') (ex_time ''2025-01-20''),
      Li_Item (Some (H2_Tag None)) (ex_time ''2025-01-20''),
      Li_Item (ex_h2 ''Order B'' ''https://wh.gov/b'') (ex_time ''2025-03-04''),
      Li_Item (ex_h2 ''Order X'' ''https://wh.gov/x'') None,
      Li_Item (ex_h2 ''Order C'' ''https://wh.gov/c'') (ex_time ''2024-12-31''),
      Li_Item (ex_h2 ''Order Y'' ''https://wh.gov/y'') (ex_time ''yesterday''),
      Li_Item (ex_h2 ''Order A again'' ''https://wh.gov/a'') (ex_time ''2025-01-20''),
      Li_Item (ex_h2 ''Order D'' ''https://wh.gov/d'') (ex_time ''2025-03-04'')]"

definition ex_listing :: soup where
  "ex_listing =
     \<lparr>soup_select = (\<lambda>css. if css = item_selector then ex_items else []),
      soup_find = (\<lambda>tag attrs. None), soup_get_text = ''Presidential Actions''\<rparr>"

definition ex_world :: world where
  "ex_world =
     \<lparr>requests_get = (\<lambda>tr u.
        if u = page_url 1 then Response 200 (Parsed ex_listing)
        else if u = ''https://wh.gov/a'' then Response 200 (Parsed ex_soup_a)
        else if u = ''https://wh.gov/b'' then Response 503 (Parsed ex_soup_c)
        else if u = ''https://wh.gov/c'' then Response 200 (Parsed ex_soup_c)
        else if u = ''https://wh.gov/d'' then Raises (PyException ''ConnectionError'')
        else Response 404 (Parsed ex_soup_c)),
      fromisoformat = (\<lambda>dt.
        if dt = ''2025-01-20'' then Inr (MkDate 2025 1 20)
        else if dt = ''2025-03-04'' then Inr (MkDate 2025 3 4)
        else if dt = ''2024-12-31'' then Inr (MkDate 2024 12 31)
        else Inl (PyException ''ValueError''))\<rparr>"

definition ex_summarizer :: summarizer where
  "ex_summarizer order_text =
     (if order_text = ''Plain notice'' then Inl (PyException ''RuntimeError'')
      else Inr [[(''summary_text'', ''Declares an emergency.'')]])"

definition ex_order_a :: order where
  "ex_order_a =
     \<lparr>Date = MkDate 2025 1 20, Title = ''Order A'', Link = ''https://wh.gov/a'',
      Summary = ''Declares an emergency.'', Impact = ''High'', Full_Text = emergency_text\<rparr>"

definition ex_order_b :: order where
  "ex_order_b =
     \<lparr>Date = MkDate 2025 3 4, Title = ''Order B'', Link = ''https://wh.gov/b'',
      Summary = '''', Impact = ''Moderate'', Full_Text = ''''\<rparr>"

definition ex_order_c :: order where
  "ex_order_c =
     \<lparr>Date = MkDate 2024 12 31, Title = ''Order C'', Link = ''https://wh.gov/c'',
      Summary = ''Summary generation error.'', Impact = ''Moderate'',
      Full_Text = ''Plain notice''\<rparr>"

definition ex_order_a2 :: order where
  "ex_order_a2 = ex_order_a\<lparr>Title := ''Order A again''\<rparr>"

definition ex_order_d :: order where
  "ex_order_d = ex_order_b\<lparr>Title := ''Order D'', Link := ''https://wh.gov/d''\<rparr>"

definition ex_orders :: "order list" where
  "ex_orders = [ex_order_a, ex_order_b, ex_order_c, ex_order_a2, ex_order_d]"

text \<open>A site that cannot be reached: the listing request raises.\<close>

definition down_world :: world where
  "down_world =
     \<lparr>requests_get = (\<lambda>tr u. Raises (PyException ''ConnectionError'')),
      fromisoformat = (\<lambda>dt. Inl (PyException ''ValueError''))\<rparr>"


section \<open>Properties\<close>

subsection \<open>The state after an effect\<close>

lemma trace_emit [simp]: "trace (emit e s) = trace s @ [e]"
  by (simp add: emit_def)

lemma cache_emit [simp]: "order_text_cache (emit e s) = order_text_cache s"
  by (simp add: emit_def)

lemma trace_st_write [simp]: "trace (st_write m s) = trace s @ [Write m]"
  by (simp add: st_write_def)

lemma cache_st_write [simp]: "order_text_cache (st_write m s) = order_text_cache s"
  by (simp add: st_write_def)

subsection \<open>fetch_order_text, case by case\<close>

lemma fetch_order_text_cached:
  "order_text_cache s u = Some t \<Longrightarrow>
     fetch_order_text w u s = (Inr t, st_write (Using_cached u) s)"
  by (simp add: fetch_order_text_def)

lemma fetch_order_text_parsed:
  "order_text_cache s u = None \<Longrightarrow>
   requests_get w (trace (st_write (Fetching_detail u) s)) u = Response 200 (Parsed sp) \<Longrightarrow>
     fetch_order_text w u s =
       (Inr (extract_order_text sp),
        (emit (HttpGet u) (st_write (Fetching_detail u) s))
          \<lparr>order_text_cache := (order_text_cache s)(u \<mapsto> extract_order_text sp)\<rparr>)"
  by (simp add: fetch_order_text_def fetch_order_text_try_def Let_def)

lemma fetch_order_text_returns:
  "\<exists>order_text s'. fetch_order_text w u s = (Inr order_text, s')"
  by (auto simp: fetch_order_text_def split: option.splits prod.splits sum.splits)

subsection \<open>The selector loop\<close>

lemma found_texts_Nil: "found_texts sp [] = []"
  by (simp add: found_texts_def map_filter_simps)

lemma found_texts_Cons:
  "found_texts sp ((tag, attrs) # rest) =
     (case soup_find sp tag attrs of
        None \<Rightarrow> found_texts sp rest
      | Some c \<Rightarrow> get_text c # found_texts sp rest)"
  by (simp add: found_texts_def map_filter_simps split: option.splits)

lemma select_loop_eq:
  "select_loop sp sels acc =
     (case List.find (\<lambda>t. 200 < length t) (found_texts sp sels) of
        Some t \<Rightarrow> t
      | None \<Rightarrow> if found_texts sp sels = [] then acc else last (found_texts sp sels))"
proof (induction sels arbitrary: acc)
  case Nil
  show ?case by (simp add: found_texts_Nil)
next
  case (Cons sel rest)
  obtain tag attrs where sel: "sel = (tag, attrs)" by (cases sel)
  show ?case
  proof (cases "soup_find sp tag attrs")
    case None
    have ft: "found_texts sp (sel # rest) = found_texts sp rest"
      using None by (simp add: sel found_texts_Cons)
    have "select_loop sp (sel # rest) acc = select_loop sp rest acc"
      using None by (simp add: sel)
    then show ?thesis unfolding ft using Cons.IH [of acc] by simp
  next
    case (Some c)
    have ft: "found_texts sp (sel # rest) = get_text c # found_texts sp rest"
      using Some by (simp add: sel found_texts_Cons)
    show ?thesis
    proof (cases "200 < length (get_text c)")
      case True
      then show ?thesis unfolding ft using Some by (simp add: sel)
    next
      case False
      then have "select_loop sp (sel # rest) acc = select_loop sp rest (get_text c)"
        using Some by (simp add: sel)
      then show ?thesis unfolding ft using False Cons.IH [of "get_text c"]
        by (simp split: option.splits)
    qed
  qed
qed

lemma find_holds: "List.find P xs = Some t \<Longrightarrow> P t"
  by (induction xs) (auto split: if_splits)

subsection \<open>The substring test\<close>

lemma startswith_take: "startswith t p = (take (length p) t = p)"
  by (induction t p rule: startswith.induct) auto

lemma py_in_window:
  "py_in p t = (\<exists>i\<le>length t. take (length p) (drop i t) = p)"
proof (induction t)
  case Nil
  show ?case by auto
next
  case (Cons c cs)
  have "(\<exists>i\<le>length (c # cs). take (length p) (drop i (c # cs)) = p) =
        (take (length p) (c # cs) = p \<or> (\<exists>j\<le>length cs. take (length p) (drop j cs) = p))"
  proof
    assume "\<exists>i\<le>length (c # cs). take (length p) (drop i (c # cs)) = p"
    then obtain i where i: "i \<le> length (c # cs)" "take (length p) (drop i (c # cs)) = p"
      by blast
    show "take (length p) (c # cs) = p \<or> (\<exists>j\<le>length cs. take (length p) (drop j cs) = p)"
    proof (cases i)
      case 0
      with i show ?thesis by simp
    next
      case (Suc j)
      with i have "j \<le> length cs" "take (length p) (drop j cs) = p" by simp_all
      then show ?thesis by blast
    qed
  next
    assume "take (length p) (c # cs) = p \<or> (\<exists>j\<le>length cs. take (length p) (drop j cs) = p)"
    then show "\<exists>i\<le>length (c # cs). take (length p) (drop i (c # cs)) = p"
    proof
      assume "take (length p) (c # cs) = p"
      then have "0 \<le> length (c # cs) \<and> take (length p) (drop 0 (c # cs)) = p" by simp
      then show ?thesis by blast
    next
      assume "\<exists>j\<le>length cs. take (length p) (drop j cs) = p"
      then obtain j where "j \<le> length cs" "take (length p) (drop j cs) = p" by blast
      then have "Suc j \<le> length (c # cs) \<and> take (length p) (drop (Suc j) (c # cs)) = p"
        by simp
      then show ?thesis by blast
    qed
  qed
  with Cons show ?case by (simp add: startswith_take)
qed

lemma lower_window: "lower (take n (drop i t)) = take n (drop i (lower t))"
  by (simp add: lower_def take_map drop_map)

lemma contains_ci_window:
  "contains_ci word text =
     (\<exists>i\<le>length text. lower (take (length word) (drop i text)) = lower word)"
proof -
  have "set [0..<Suc (length text)] = {i. i \<le> length text}" by auto
  then show ?thesis unfolding contains_ci_def list_ex_iff by (simp only: Bex_def mem_Collect_eq)
qed

lemma lower_emergency: "lower ''emergency'' = ''emergency''"
  by code_simp

lemma impact_of_contains:
  "impact_of text = (if contains_ci ''emergency'' text then ''High'' else ''Moderate'')"
proof -
  have "py_in ''emergency'' (lower text) = contains_ci ''emergency'' text"
    unfolding py_in_window contains_ci_window lower_window lower_emergency
    by (simp add: lower_def)
  then show ?thesis by (simp add: impact_of_def)
qed

subsection \<open>The orders of a run\<close>

lemma make_summary_fst:
  "fst (make_summary sm title text s) =
     (if text = [] then []
      else case model_summary sm text of
             Inl e \<Rightarrow> ''Summary generation error.''
           | Inr summary \<Rightarrow> summary)"
  by (simp add: make_summary_def Let_def split: sum.splits)

lemma process_item_appends:
  assumes "process_item w sm item s = (Inr (Some ord), s')"
  shows "\<exists>h2 a tm dt order_date t s2.
           item_find_h2 item = Some h2 \<and> h2_find_a h2 = Some a \<and>
           item_find_time item = Some tm \<and> time_datetime tm = Some dt \<and>
           fromisoformat w dt = Inr order_date \<and>
           fetch_order_text w (a_href a) (st_write (Processing (a_get_text a) order_date) s) =
             (Inr t, s2) \<and>
           make_summary sm (a_get_text a) t s2 = (Summary ord, s') \<and>
           ord = \<lparr>Date = order_date, Title = a_get_text a, Link = a_href a,
                  Summary = Summary ord, Impact = impact_of t, Full_Text = t\<rparr>"
  using assms
  by (auto simp: process_item_def Let_def split: option.splits sum.splits prod.splits)

lemma process_item_fields:
  assumes "process_item w sm item s = (Inr (Some ord), s')"
  shows "Impact ord = impact_of (Full_Text ord) \<and>
         Summary ord =
           (if Full_Text ord = [] then []
            else case model_summary sm (Full_Text ord) of
                   Inl e \<Rightarrow> ''Summary generation error.''
                 | Inr summary \<Rightarrow> summary)"
proof -
  from process_item_appends [OF assms] obtain a order_date t s2 where
    ms: "make_summary sm (a_get_text a) t s2 = (Summary ord, s')" and
    ord: "ord = \<lparr>Date = order_date, Title = a_get_text a, Link = a_href a,
                 Summary = Summary ord, Impact = impact_of t, Full_Text = t\<rparr>"
    by blast
  have t: "Full_Text ord = t" and i: "Impact ord = impact_of t"
    by (subst ord, simp)+
  have "Summary ord = fst (make_summary sm (a_get_text a) t s2)"
    by (simp add: ms)
  then show ?thesis unfolding t i by (simp add: make_summary_fst)
qed

lemma process_items_orders:
  assumes step: "\<And>item s ord s'. process_item w sm item s = (Inr (Some ord), s') \<Longrightarrow> P ord"
  shows "process_items w sm items acc s = (Inr os, s') \<Longrightarrow> \<forall>x\<in>set acc. P x \<Longrightarrow>
           \<forall>x\<in>set os. P x"
proof (induction items arbitrary: acc s)
  case Nil
  then show ?case by simp
next
  case (Cons item items)
  obtain r s1 where r: "process_item w sm item s = (r, s1)"
    by (cases "process_item w sm item s")
  show ?case
  proof (cases r)
    case (Inl e)
    with r Cons.prems show ?thesis by simp
  next
    case (Inr x)
    show ?thesis
    proof (cases x)
      case None
      with Inr r Cons.prems have "process_items w sm items acc s1 = (Inr os, s')" by simp
      then show ?thesis using Cons.IH Cons.prems(2) by blast
    next
      case (Some ord)
      with Inr r Cons.prems have run: "process_items w sm items (acc @ [ord]) s1 = (Inr os, s')"
        by simp
      have "P ord" using step r Inr Some by blast
      with Cons.prems(2) have "\<forall>x\<in>set (acc @ [ord]). P x" by simp
      with run show ?thesis using Cons.IH by blast
    qed
  qed
qed

lemma fetch_pages_orders:
  assumes step: "\<And>item s ord s'. process_item w sm item s = (Inr (Some ord), s') \<Longrightarrow> P ord"
  shows "fetch_pages fuel w sm page orders s = Some (Inr os, s') \<Longrightarrow> \<forall>x\<in>set orders. P x \<Longrightarrow>
           \<forall>x\<in>set os. P x"
proof (induction fuel arbitrary: page orders s)
  case 0
  then show ?case by simp
next
  case (Suc fuel)
  let ?s1 = "st_write (Fetching_page (page_url page)) s"
  let ?s2 = "emit (HttpGet (page_url page)) ?s1"
  show ?case
  proof (cases "requests_get w (trace ?s1) (page_url page)")
    case (Raises e)
    with Suc.prems show ?thesis by (simp add: Let_def)
  next
    case (Response status body)
    show ?thesis
    proof (cases "status \<noteq> 200")
      case True
      with Response Suc.prems show ?thesis by (simp add: Let_def)
    next
      case False
      show ?thesis
      proof (cases body)
        case (Unparseable e)
        with False Response Suc.prems show ?thesis by (simp add: Let_def)
      next
        case (Parsed sp)
        obtain r s3 where r: "process_items w sm (soup_select sp item_selector) [] ?s2 = (r, s3)"
          by (cases "process_items w sm (soup_select sp item_selector) [] ?s2")
        show ?thesis
        proof (cases "soup_select sp item_selector = []")
          case True
          with Parsed False Response Suc.prems show ?thesis by (simp add: Let_def)
        next
          case items: False
          show ?thesis
          proof (cases r)
            case (Inl e)
            with items r Parsed False Response Suc.prems show ?thesis by (simp add: Let_def)
          next
            case (Inr page_orders)
            have po: "\<forall>x\<in>set page_orders. P x"
              using process_items_orders [of w sm P "soup_select sp item_selector" "[]" ?s2
                  page_orders s3] step r Inr
              by simp
            show ?thesis
            proof (cases "page_orders = []")
              case True
              with Inr items r Parsed False Response Suc.prems show ?thesis
                by (simp add: Let_def)
            next
              case ne: False
              with Inr items r Parsed False Response Suc.prems
              have "fetch_pages fuel w sm (page + 1) (orders @ page_orders) s3 = Some (Inr os, s')"
                by (simp add: Let_def)
              moreover have "\<forall>x\<in>set (orders @ page_orders). P x"
                using po Suc.prems(2) by auto
              ultimately show ?thesis using Suc.IH by blast
            qed
          qed
        qed
      qed
    qed
  qed
qed

subsection \<open>What an operation adds to the trace\<close>

lemma http_gets_append [simp]: "http_gets (xs @ ys) = http_gets xs @ http_gets ys"
  by (induction xs rule: http_gets.induct) auto

lemma summarizer_calls_append [simp]:
  "summarizer_calls (xs @ ys) = summarizer_calls xs @ summarizer_calls ys"
  by (induction xs rule: summarizer_calls.induct) auto

lemma shown_tables_append [simp]: "shown_tables (xs @ ys) = shown_tables xs @ shown_tables ys"
  by (induction xs rule: shown_tables.induct) auto

lemma fetch_order_text_trace:
  "\<exists>es. trace (snd (fetch_order_text w u s)) = trace s @ es \<and>
        summarizer_calls es = [] \<and> shown_tables es = [] \<and>
        http_gets es = (if order_text_cache s u = None then [u] else [])"
  by (auto simp: fetch_order_text_def fetch_order_text_try_def Let_def
      split: option.splits http_outcome.splits html.splits)

lemma make_summary_trace:
  "\<exists>es. trace (snd (make_summary sm title t s)) = trace s @ es \<and>
        summarizer_calls es = (if t = [] then [] else [t]) \<and> shown_tables es = [] \<and>
        http_gets es = []"
  by (auto simp: make_summary_def Let_def split: sum.splits)

lemma process_item_skips:
  assumes "process_item w sm item s = (Inr None, s')"
  shows "\<exists>m. s' = st_write m s"
  using assms
  by (auto simp: process_item_def Let_def split: option.splits sum.splits prod.splits)

lemma process_item_trace:
  assumes "process_item w sm item s = (Inr x, s')"
  shows "\<exists>es. trace s' = trace s @ es \<and>
           summarizer_calls es =
             filter (\<lambda>t. t \<noteq> []) (map Full_Text (case x of None \<Rightarrow> [] | Some ord \<Rightarrow> [ord])) \<and>
           shown_tables es = [] \<and> length (http_gets es) \<le> 1"
proof (cases x)
  case None
  with assms obtain m where "s' = st_write m s" using process_item_skips by blast
  with None show ?thesis by simp
next
  case (Some ord)
  with assms have p: "process_item w sm item s = (Inr (Some ord), s')" by simp
  from process_item_appends [OF p] obtain a order_date t s2 where
    f: "fetch_order_text w (a_href a) (st_write (Processing (a_get_text a) order_date) s) =
          (Inr t, s2)" and
    ms: "make_summary sm (a_get_text a) t s2 = (Summary ord, s')" and
    ord: "ord = \<lparr>Date = order_date, Title = a_get_text a, Link = a_href a,
                 Summary = Summary ord, Impact = impact_of t, Full_Text = t\<rparr>"
    by blast
  have t: "Full_Text ord = t" by (subst ord, simp)
  let ?s1 = "st_write (Processing (a_get_text a) order_date) s"
  from fetch_order_text_trace [of w "a_href a" ?s1] f obtain es1 where
    es1: "trace s2 = trace ?s1 @ es1" "summarizer_calls es1 = []" "shown_tables es1 = []"
      "length (http_gets es1) \<le> 1"
    by (auto split: if_splits)
  from make_summary_trace [of sm "a_get_text a" t s2] ms obtain es2 where
    es2: "trace s' = trace s2 @ es2" "summarizer_calls es2 = (if t = [] then [] else [t])"
      "shown_tables es2 = []" "http_gets es2 = []"
    by auto
  let ?es = "Write (Processing (a_get_text a) order_date) # es1 @ es2"
  have "trace s' = trace s @ ?es" using es1(1) es2(1) by simp
  moreover have "summarizer_calls ?es = filter (\<lambda>t. t \<noteq> []) [Full_Text ord]"
    using es1(2) es2(2) t by simp
  moreover have "shown_tables ?es = []" using es1(3) es2(3) by simp
  moreover have "length (http_gets ?es) \<le> 1" using es1(4) es2(4) by simp
  ultimately show ?thesis using Some by (intro exI [of _ ?es]) simp
qed

lemma process_item_no_exception: "fst (process_item w sm item s) \<noteq> Inl e"
proof -
  have "\<And>u s0 e. fst (fetch_order_text w u s0) \<noteq> Inl e"
    using fetch_order_text_returns by (metis fst_conv sum.distinct(1))
  then have "\<And>u s0 e s1. fetch_order_text w u s0 \<noteq> (Inl e, s1)"
    by (metis fst_conv)
  then show ?thesis
    by (auto simp: process_item_def Let_def split: option.splits sum.splits prod.splits)
qed

lemma process_items_trace:
  "process_items w sm items acc s = (r, s') \<Longrightarrow>
     \<exists>new es. r = Inr (acc @ new) \<and> trace s' = trace s @ es \<and>
       summarizer_calls es = filter (\<lambda>t. t \<noteq> []) (map Full_Text new) \<and> shown_tables es = []"
proof (induction items arbitrary: acc s)
  case Nil
  then have "r = Inr (acc @ []) \<and> trace s' = trace s @ [] \<and>
      summarizer_calls [] = filter (\<lambda>t. t \<noteq> []) (map Full_Text []) \<and> shown_tables [] = []"
    by auto
  then show ?case by blast
next
  case (Cons item items)
  obtain x s1 where x: "process_item w sm item s = (x, s1)"
    by (cases "process_item w sm item s")
  show ?case
  proof (cases x)
    case (Inl e)
    with x process_item_no_exception [of w sm item s e] show ?thesis by simp
  next
    case (Inr y)
    from process_item_trace [of w sm item s y s1] x Inr obtain es1 where
      es1: "trace s1 = trace s @ es1"
        "summarizer_calls es1 =
           filter (\<lambda>t. t \<noteq> []) (map Full_Text (case y of None \<Rightarrow> [] | Some ord \<Rightarrow> [ord]))"
        "shown_tables es1 = []"
      by auto
    let ?one = "case y of None \<Rightarrow> [] | Some ord \<Rightarrow> [ord]"
    have "process_items w sm items (acc @ ?one) s1 = (r, s')"
      using Cons.prems x Inr by (cases y) simp_all
    from Cons.IH [OF this] obtain new es where
      n: "r = Inr ((acc @ ?one) @ new)" "trace s' = trace s1 @ es"
        "summarizer_calls es = filter (\<lambda>t. t \<noteq> []) (map Full_Text new)" "shown_tables es = []"
      by blast
    have "r = Inr (acc @ (?one @ new))" using n(1) by simp
    moreover have "trace s' = trace s @ (es1 @ es)" using n(2) es1(1) by simp
    moreover have "summarizer_calls (es1 @ es) =
        filter (\<lambda>t. t \<noteq> []) (map Full_Text (?one @ new))"
      using n(3) es1(2) by simp
    moreover have "shown_tables (es1 @ es) = []" using n(4) es1(3) by simp
    ultimately show ?thesis by blast
  qed
qed

subsection \<open>One turn of the pagination loop\<close>

lemma process_items_no_exception: "fst (process_items w sm items acc s) \<noteq> Inl e"
proof -
  obtain r s' where r: "process_items w sm items acc s = (r, s')"
    by (cases "process_items w sm items acc s")
  from process_items_trace [OF r] show ?thesis using r by auto
qed

lemma fetch_pages_turn:
  assumes run: "fetch_pages (Suc fuel) w sm page orders s = Some (r, s')"
  shows
    "(listing_raises (requests_get w (trace (st_write (Fetching_page (page_url page)) s))
         (page_url page)) \<and>
      (\<exists>e. r = Inl e) \<and>
      s' = emit (HttpGet (page_url page)) (st_write (Fetching_page (page_url page)) s)) \<or>
     (r = Inr orders \<and>
      (\<exists>m. s' = st_write m
               (emit (HttpGet (page_url page)) (st_write (Fetching_page (page_url page)) s)))) \<or>
     (\<exists>items s3.
        process_items w sm items []
          (emit (HttpGet (page_url page)) (st_write (Fetching_page (page_url page)) s)) =
          (Inr [], s3) \<and>
        r = Inr orders \<and> s' = st_write (No_orders_on_page page) s3) \<or>
     (\<exists>items page_orders s3.
        process_items w sm items []
          (emit (HttpGet (page_url page)) (st_write (Fetching_page (page_url page)) s)) =
          (Inr page_orders, s3) \<and>
        page_orders \<noteq> [] \<and>
        fetch_pages fuel w sm (page + 1) (orders @ page_orders) s3 = Some (r, s'))"
proof -
  let ?s1 = "st_write (Fetching_page (page_url page)) s"
  let ?s2 = "emit (HttpGet (page_url page)) ?s1"
  show ?thesis
  proof (cases "requests_get w (trace ?s1) (page_url page)")
    case (Raises e)
    with run show ?thesis by (auto simp: Let_def listing_raises_def)
  next
    case (Response status body)
    show ?thesis
    proof (cases "status \<noteq> 200")
      case True
      with Response run show ?thesis by (auto simp: Let_def)
    next
      case ok: False
      show ?thesis
      proof (cases body)
        case (Unparseable e)
        with ok Response run show ?thesis by (auto simp: Let_def listing_raises_def)
      next
        case (Parsed sp)
        let ?items = "soup_select sp item_selector"
        show ?thesis
        proof (cases "?items = []")
          case True
          with Parsed ok Response run show ?thesis by (auto simp: Let_def)
        next
          case items: False
          obtain x s3 where x: "process_items w sm ?items [] ?s2 = (x, s3)"
            by (cases "process_items w sm ?items [] ?s2")
          with process_items_no_exception [of w sm ?items "[]" ?s2]
          obtain page_orders where po: "x = Inr page_orders" by (cases x) auto
          show ?thesis
          proof (cases "page_orders = []")
            case True
            with po x items Parsed ok Response run
            have "r = Inr orders \<and> s' = st_write (No_orders_on_page page) s3"
              by (auto simp: Let_def)
            with True po x show ?thesis by blast
          next
            case False
            with po x items Parsed ok Response run
            have "fetch_pages fuel w sm (page + 1) (orders @ page_orders) s3 = Some (r, s')"
              by (simp add: Let_def)
            with False po x show ?thesis by blast
          qed
        qed
      qed
    qed
  qed
qed


lemma fetch_pages_only_listing_raises:
  assumes calm: "\<And>tr p. \<not> listing_raises (requests_get w tr (page_url p))"
  shows "fetch_pages fuel w sm page orders s \<noteq> Some (Inl e, s')"
proof (induction fuel arbitrary: page orders s)
  case 0
  show ?case by simp
next
  case (Suc fuel)
  show ?case
  proof
    assume "fetch_pages (Suc fuel) w sm page orders s = Some (Inl e, s')"
    from fetch_pages_turn [OF this] calm Suc.IH show False by auto
  qed
qed

subsection \<open>The table of a list of orders\<close>

lemma collect_Inr: "collect (map (\<lambda>x. Inr (f x)) xs) = Inr (map f xs)"
  by (induction xs) auto

lemma date_column:
  "orders \<noteq> [] \<Longrightarrow>
     get_column (DataFrame orders) ''Date'' = Inr (map (\<lambda>ord. DateCell (Date ord)) orders)"
proof -
  assume "orders \<noteq> []"
  then have "get_column (DataFrame orders) ''Date'' =
      collect (map (\<lambda>ord. Inr (DateCell (Date ord))) orders)"
    by (simp add: get_column_def DataFrame_def order_keys_def cell_at_def order_cells_def
        comp_def)
  then show ?thesis by (simp add: collect_Inr)
qed


lemma date_mask:
  "series_ge (map (\<lambda>ord. DateCell (Date ord)) orders) d =
     Inr (map (\<lambda>ord. date_ge (Date ord) d) orders)"
proof -
  have "series_ge (map (\<lambda>ord. DateCell (Date ord)) orders) d =
      collect (map (\<lambda>ord. Inr (date_ge (Date ord) d)) orders)"
    by (simp add: series_ge_def cell_ge_def comp_def)
  then show ?thesis by (simp add: collect_Inr)
qed

lemma masked_rows:
  "map fst (filter snd (zip (map f xs) (map p xs))) = map f (filter p xs)"
  by (induction xs) auto

lemma shown_indexes:
  "those (map (\<lambda>k. index_of k order_keys) shown_columns) = Some [0, 1, 2, 3, 4]"
  by (simp add: order_keys_def shown_columns_def)

lemma shown_cells:
  "collect (map (cell_at (order_cells ord)) [0, 1, 2, 3, 4]) =
     Inr [DateCell (Date ord), StrCell (Title ord), StrCell (Link ord), StrCell (Summary ord),
          StrCell (Impact ord)]"
  by (simp add: cell_at_def order_cells_def)

lemma dashboard_table:
  assumes "orders \<noteq> []"
  shows "dashboard orders date_filter s =
     (Inr (),
      emit (Show_dataframe
              \<lparr>columns = [''Date'', ''Title'', ''Link'', ''Summary'', ''Impact''],
               rows = map (\<lambda>ord. [DateCell (Date ord), StrCell (Title ord), StrCell (Link ord),
                                   StrCell (Summary ord), StrCell (Impact ord)])
                        (filter (\<lambda>ord. date_ge (Date ord) date_filter) orders)\<rparr>)
        (st_write Overview (emit (Date_input date_filter) s)))"
proof -
  let ?df = "DataFrame orders"
  let ?kept = "filter (\<lambda>ord. date_ge (Date ord) date_filter) orders"
  let ?filtered = "boolean_index ?df (map (\<lambda>ord. date_ge (Date ord) date_filter) orders)"
  have ne: "\<not> df_empty ?df"
    using assms by (simp add: df_empty_def DataFrame_def order_keys_def)
  have filtered: "?filtered = \<lparr>columns = order_keys, rows = map order_cells ?kept\<rparr>"
    using assms by (simp add: boolean_index_def DataFrame_def masked_rows)
  have "collect (map (\<lambda>r. collect (map (cell_at r) [0, 1, 2, 3, 4])) (map order_cells ?kept)) =
      collect (map (\<lambda>ord. Inr [DateCell (Date ord), StrCell (Title ord), StrCell (Link ord),
                              StrCell (Summary ord), StrCell (Impact ord)]) ?kept)"
    by (simp only: map_map comp_def shown_cells)
  then have cells:
    "collect (map (\<lambda>r. collect (map (cell_at r) [0, 1, 2, 3, 4])) (map order_cells ?kept)) =
       Inr (map (\<lambda>ord. [DateCell (Date ord), StrCell (Title ord), StrCell (Link ord),
                        StrCell (Summary ord), StrCell (Impact ord)]) ?kept)"
    by (simp only: collect_Inr)
  have shown: "select_columns ?filtered shown_columns =
      Inr \<lparr>columns = shown_columns,
           rows = map (\<lambda>ord. [DateCell (Date ord), StrCell (Title ord), StrCell (Link ord),
                              StrCell (Summary ord), StrCell (Impact ord)]) ?kept\<rparr>"
  proof -
    have "select_columns ?filtered shown_columns =
        (case collect (map (\<lambda>r. collect (map (cell_at r) [0, 1, 2, 3, 4]))
                 (map order_cells ?kept)) of
           Inl e \<Rightarrow> Inl e
         | Inr rs \<Rightarrow> Inr \<lparr>columns = shown_columns, rows = rs\<rparr>)"
      unfolding filtered select_columns_def
      by (simp only: dataframe.select_convs shown_indexes option.case)
    then show ?thesis by (simp only: cells sum.case)
  qed
  show ?thesis
    using ne by (simp add: dashboard_def Let_def date_column [OF assms] date_mask
        shown [unfolded shown_columns_def] shown_columns_def)
qed

lemma dashboard_no_orders: "dashboard [] date_filter s = (Inr (), st_write No_orders_found s)"
  by (simp add: dashboard_def DataFrame_def df_empty_def)

subsection \<open>main\<close>

lemma main_cases:
  assumes "main fuel w sm date_filter s = Some (r, s')"
  shows "\<exists>r1 s1.
           fetch_executive_orders fuel w sm
             (st_write Initializing_summarizer
               (st_write Fetching_orders (emit Show_title (emit Meta_refresh s)))) =
             Some (r1, s1) \<and>
           (case r1 of
              Inl e \<Rightarrow> r = Inl e \<and> s' = s1
            | Inr orders \<Rightarrow> dashboard orders date_filter s1 = (r, s'))"
  using assms by (auto simp: main_def Let_def split: option.splits sum.splits prod.splits)


subsection \<open>The cache\<close>

lemma fetch_order_text_cache:
  "order_text_cache s \<subseteq>\<^sub>m order_text_cache (snd (fetch_order_text w u s))"
proof (cases "order_text_cache s u")
  case (Some t)
  then show ?thesis by (simp add: fetch_order_text_cached)
next
  case None
  then have "u \<notin> dom (order_text_cache s)" by (simp add: domIff)
  then have "order_text_cache s \<subseteq>\<^sub>m (order_text_cache s)(u \<mapsto> t)" for t
    by (simp add: map_le_def)
  with None show ?thesis
    by (auto simp: fetch_order_text_def fetch_order_text_try_def Let_def
        split: http_outcome.splits html.splits)
qed

lemma later_cache: "later s s' \<Longrightarrow> order_text_cache s \<subseteq>\<^sub>m order_text_cache s'"
proof (induction rule: later.induct)
  case (later_refl s)
  show ?case by simp
next
  case (later_emit s s' e)
  then show ?case by simp
next
  case (later_fetch s s' w u)
  from later_fetch.IH fetch_order_text_cache [of s' w u] show ?case
    by (rule map_le_trans)
qed

lemma later_trans: "later b c \<Longrightarrow> later a b \<Longrightarrow> later a c"
  by (induction rule: later.induct) (auto intro: later.intros)

lemma later_make_summary: "later s (snd (make_summary sm title t s))"
  by (auto simp: make_summary_def st_write_def Let_def split: sum.splits
      intro: later.intros)

lemma later_process_item: "later s (snd (process_item w sm item s))"
proof -
  have w: "later s (st_write m s)" for m
    by (simp add: st_write_def later.intros)
  have f: "later s (snd (fetch_order_text w u (st_write m s)))" for u m
    using w by (rule later_fetch)
  have f2: "later s s2" if "fetch_order_text w u (st_write m s) = (x, s2)" for u m x s2
    using that f [of u m] by simp
  have "later s s3"
    if "fetch_order_text w u (st_write m s) = (x, s2)" "make_summary sm title t s2 = (y, s3)"
    for u m x s2 title t y s3
  proof -
    from that(1) have "later s s2" by (rule f2)
    moreover from that(2) later_make_summary [of s2 sm title t] have "later s2 s3" by simp
    ultimately show ?thesis using later_trans by blast
  qed
  then show ?thesis using w f2
    by (auto simp: process_item_def Let_def split: option.splits sum.splits prod.splits)
qed

lemma later_process_items: "later s (snd (process_items w sm items acc s))"
proof (induction items arbitrary: acc s)
  case Nil
  show ?case by (simp add: later_refl)
next
  case (Cons item items)
  obtain x s1 where x: "process_item w sm item s = (x, s1)"
    by (cases "process_item w sm item s")
  with later_process_item [of s w sm item] have l: "later s s1" by simp
  show ?case
  proof (cases x)
    case (Inl e)
    with x l show ?thesis by simp
  next
    case (Inr y)
    show ?thesis
    proof (cases y)
      case None
      with Inr x have "process_items w sm (item # items) acc s = process_items w sm items acc s1"
        by simp
      with Cons.IH [of s1 acc] l show ?thesis using later_trans by metis
    next
      case (Some ord)
      with Inr x have
        "process_items w sm (item # items) acc s = process_items w sm items (acc @ [ord]) s1"
        by simp
      with Cons.IH [of s1 "acc @ [ord]"] l show ?thesis using later_trans by metis
    qed
  qed
qed

lemma later_fetch_pages:
  "fetch_pages fuel w sm page orders s = Some (r, s') \<Longrightarrow> later s s'"
proof (induction fuel arbitrary: page orders s)
  case 0
  then show ?case by simp
next
  case (Suc fuel)
  let ?s2 = "emit (HttpGet (page_url page)) (st_write (Fetching_page (page_url page)) s)"
  have s2: "later s ?s2"
    by (simp add: st_write_def later.intros)
  have items: "later s s3" if "process_items w sm items [] ?s2 = (x, s3)" for items x s3
    using later_process_items [of ?s2 w sm items "[]"] that s2 later_trans by fastforce
  from fetch_pages_turn [OF Suc.prems]
  consider
    (raise) "s' = ?s2"
  | (stop) m where "s' = st_write m ?s2"
  | (none) items s3 where "process_items w sm items [] ?s2 = (Inr [], s3)"
      "s' = st_write (No_orders_on_page page) s3"
  | (more) items page_orders s3 where
      "process_items w sm items [] ?s2 = (Inr page_orders, s3)"
      "fetch_pages fuel w sm (page + 1) (orders @ page_orders) s3 = Some (r, s')"
    by (elim disjE exE conjE) auto
  then show ?case
  proof cases
    case raise
    with s2 show ?thesis by simp
  next
    case stop
    with s2 show ?thesis by (simp add: st_write_def later.intros)
  next
    case none
    from items [OF none(1)] none(2) show ?thesis by (simp add: st_write_def later.intros)
  next
    case more
    from items [OF more(1)] Suc.IH [OF more(2)] show ?thesis using later_trans by blast
  qed
qed

lemma fetch_order_text_failed:
  assumes "order_text_cache s u = None"
    and "failed (requests_get w (trace (st_write (Fetching_detail u) s)) u)"
  shows "\<exists>es. fetch_order_text w u s =
           (Inr '''', s\<lparr>trace := trace s @ Write (Fetching_detail u) # HttpGet u # es\<rparr>) \<and>
           http_gets es = []"
  using assms
  by (auto simp: fetch_order_text_def fetch_order_text_try_def failed_def Let_def st_write_def
      emit_def split: http_outcome.splits html.splits if_splits)

subsection \<open>Items that are skipped and items that are recorded\<close>

lemma process_item_unusable:
  "unusable w item \<Longrightarrow> \<exists>m. process_item w sm item s = (Inr None, st_write m s)"
  by (auto simp: unusable_def item_link_def item_datetime_def process_item_def Let_def
      split: option.splits sum.splits)

lemma process_item_usable:
  assumes "\<not> unusable w item"
  shows "\<exists>ord s'. process_item w sm item s = (Inr (Some ord), s')"
proof -
  from assms obtain h2 a where
    l: "item_find_h2 item = Some h2" "h2_find_a h2 = Some a"
    by (auto simp: unusable_def item_link_def split: option.splits)
  from assms obtain tm dt where
    d: "item_find_time item = Some tm" "time_datetime tm = Some dt" "\<not> isl (fromisoformat w dt)"
    by (auto simp: unusable_def item_datetime_def split: option.splits)
  from d(3) obtain order_date where p: "fromisoformat w dt = Inr order_date"
    by (cases "fromisoformat w dt") auto
  note i = l d(1,2) p
  obtain t s2 where
    f: "fetch_order_text w (a_href a) (st_write (Processing (a_get_text a) order_date) s) =
          (Inr t, s2)"
    using fetch_order_text_returns by blast
  obtain summary s3 where m: "make_summary sm (a_get_text a) t s2 = (summary, s3)"
    by (cases "make_summary sm (a_get_text a) t s2")
  from i f m show ?thesis by (simp add: process_item_def Let_def)
qed

lemma dashboard_returns: "fst (dashboard orders date_filter s) = Inr ()"
proof (cases "orders = []")
  case True
  then show ?thesis by (simp add: dashboard_no_orders)
next
  case False
  then show ?thesis by (simp add: dashboard_table)
qed

subsection \<open>The run on the example site\<close>

lemma ex_run_orders:
  "map_option fst (fetch_executive_orders 5 ex_world ex_summarizer initial_state) =
     Some (Inr ex_orders)"
  by code_simp

lemma ex_run_state:
  "\<exists>s'. fetch_executive_orders 5 ex_world ex_summarizer initial_state = Some (Inr ex_orders, s')"
  using ex_run_orders
  by (cases "fetch_executive_orders 5 ex_world ex_summarizer initial_state") auto

lemma ex_main:
  "map_option (\<lambda>(r, s). (r, summarizer_calls (trace s), shown_tables (trace s)))
     (main 5 ex_world ex_summarizer (MkDate 2025 1 20) initial_state) =
   Some (Inr (), [emergency_text, ''Plain notice'', emergency_text],
         [\<lparr>columns = [''Date'', ''Title'', ''Link'', ''Summary'', ''Impact''],
           rows =
             [[DateCell (MkDate 2025 1 20), StrCell ''Order A'', StrCell ''https://wh.gov/a'',
               StrCell ''Declares an emergency.'', StrCell ''High''],
              [DateCell (MkDate 2025 3 4), StrCell ''Order B'', StrCell ''https://wh.gov/b'',
               StrCell '''', StrCell ''Moderate''],
              [DateCell (MkDate 2025 1 20), StrCell ''Order A again'',
               StrCell ''https://wh.gov/a'', StrCell ''Declares an emergency.'',
               StrCell ''High''],
              [DateCell (MkDate 2025 3 4), StrCell ''Order D'', StrCell ''https://wh.gov/d'',
               StrCell '''', StrCell ''Moderate'']]\<rparr>])"
  by code_simp

lemma ex_world_listing: "\<not> listing_raises (requests_get ex_world tr (page_url p))"
  by (simp add: listing_raises_def ex_world_def page_url_def base_url_def)

lemma ex_world_b:
  "requests_get ex_world tr ''https://wh.gov/b'' = Response 503 (Parsed ex_soup_c)"
  by (simp add: ex_world_def page_url_def base_url_def)

lemma ex_world_page_2:
  "requests_get ex_world tr (page_url 2) = Response 404 (Parsed ex_soup_c)"
  by (simp add: ex_world_def page_url_def base_url_def)

subsection \<open>The claims\<close>

text \<open>
  C8. \<open>fetch_order_text\<close> is total at its interface: for every URL, every state of the
  cache and every answer of the world (a raising request, any status, a page that does not
  parse), it returns a string and no exception reaches its caller.
\<close>

theorem fetch_order_text_total:
  "\<exists>order_text s'. fetch_order_text w u s = (Inr order_text, s')"
proof (cases "order_text_cache s u")
  case (Some cached)
  then show ?thesis by (simp add: fetch_order_text_def)
next
  case None
  obtain r s1 where body: "fetch_order_text_try w u s = (r, s1)"
    by (cases "fetch_order_text_try w u s")
  show ?thesis
  proof (cases r)
    case (Inl e)
    with None body show ?thesis by (simp add: fetch_order_text_def)
  next
    case (Inr order_text)
    with None body show ?thesis by (simp add: fetch_order_text_def)
  qed
qed

theorem fetch_order_text_total_witness:
  "fst (fetch_order_text down_world ''https://wh.gov/a'' initial_state) = Inr '''' \<and>
   fst (fetch_order_text ex_world ''https://wh.gov/b'' initial_state) = Inr '''' \<and>
   fst (fetch_order_text ex_world ''https://wh.gov/c'' initial_state) = Inr ''Plain notice''"
proof -
  have "fst (fetch_order_text down_world ''https://wh.gov/a'' initial_state) = Inr ''''"
    by code_simp
  moreover have "fst (fetch_order_text ex_world ''https://wh.gov/b'' initial_state) = Inr ''''"
    by code_simp
  moreover have
    "fst (fetch_order_text ex_world ''https://wh.gov/c'' initial_state) = Inr ''Plain notice''"
    by code_simp
  ultimately show ?thesis
    using fetch_order_text_total [of down_world "''https://wh.gov/a''" initial_state]
    by simp
qed

text \<open>
  C9. The extraction tries the six selectors in their order. With the texts of the
  containers found, in that order: if one is longer than 200 characters, the first such
  text is returned; otherwise the text of the last container found is returned when it
  has at least 200 characters, and the text of the whole page when it is shorter or when
  no container was found. So a text returned that is not the whole page's has at least
  200 characters. On a cache miss answered with status 200 and a page that parses,
  \<open>fetch_order_text\<close> returns this extraction.
\<close>

theorem extraction_rule:
  "selectors =
     [(''article'', []), (''div'', [(''class'', ''page-content'')]), (''main'', []),
      (''div'', [(''class'', ''content-wrapper'')]), (''div'', [(''class'', ''page__content'')]),
      (''div'', [(''class'', ''entry-content'')])] \<and>
   extract_order_text sp =
     (case List.find (\<lambda>t. 200 < length t) (found_texts sp selectors) of
        Some t \<Rightarrow> t
      | None \<Rightarrow>
          if found_texts sp selectors = [] \<or> length (last (found_texts sp selectors)) < 200
          then soup_get_text sp
          else last (found_texts sp selectors)) \<and>
   (extract_order_text sp \<noteq> soup_get_text sp \<longrightarrow> 200 \<le> length (extract_order_text sp)) \<and>
   (order_text_cache s u = None \<and>
    requests_get w (trace (st_write (Fetching_detail u) s)) u = Response 200 (Parsed sp) \<longrightarrow>
      fst (fetch_order_text w u s) = Inr (extract_order_text sp))"
proof -
  let ?ts = "found_texts sp selectors"
  have a: "extract_order_text sp =
     (case List.find (\<lambda>t. 200 < length t) ?ts of
        Some t \<Rightarrow> t
      | None \<Rightarrow> if ?ts = [] \<or> length (last ?ts) < 200 then soup_get_text sp else last ?ts)"
  proof (cases "List.find (\<lambda>t. 200 < length t) ?ts")
    case None
    then show ?thesis
      by (auto simp: extract_order_text_def select_loop_eq Let_def)
  next
    case (Some t)
    then have "200 < length t" by (rule find_holds)
    with Some show ?thesis
      by (auto simp: extract_order_text_def select_loop_eq Let_def)
  qed
  have b: "extract_order_text sp \<noteq> soup_get_text sp \<longrightarrow> 200 \<le> length (extract_order_text sp)"
    by (auto simp: extract_order_text_def Let_def)
  have c: "order_text_cache s u = None \<and>
    requests_get w (trace (st_write (Fetching_detail u) s)) u = Response 200 (Parsed sp) \<longrightarrow>
      fst (fetch_order_text w u s) = Inr (extract_order_text sp)"
    by (simp add: fetch_order_text_parsed)
  show ?thesis using a b c by (simp add: selectors_def)
qed

theorem extraction_rule_witness:
  "found_texts ex_soup_a selectors = [''Short teaser'', emergency_text] \<and>
   extract_order_text ex_soup_a = emergency_text \<and>
   extract_order_text ex_soup_a \<noteq> soup_get_text ex_soup_a \<and>
   200 \<le> length (extract_order_text ex_soup_a) \<and>
   order_text_cache initial_state ''https://wh.gov/a'' = None \<and>
   fst (fetch_order_text ex_world ''https://wh.gov/a'' initial_state) = Inr emergency_text"
proof -
  have ts: "found_texts ex_soup_a selectors = [''Short teaser'', emergency_text]"
    by code_simp
  have ne: "extract_order_text ex_soup_a \<noteq> soup_get_text ex_soup_a"
    by code_simp
  have ex: "extract_order_text ex_soup_a = emergency_text"
    by code_simp
  have miss: "order_text_cache initial_state ''https://wh.gov/a'' = None"
    by (simp add: initial_state_def)
  have get: "requests_get ex_world
      (trace (st_write (Fetching_detail ''https://wh.gov/a'') initial_state)) ''https://wh.gov/a'' =
      Response 200 (Parsed ex_soup_a)"
    by (simp add: ex_world_def page_url_def base_url_def)
  show ?thesis
    using extraction_rule [of ex_soup_a initial_state "''https://wh.gov/a''" ex_world]
      ts ne ex miss get
    by simp
qed


text \<open>
  C1. Every order of a run has an impact label that is one of two values: \<open>High\<close> when
  its fetched text contains \<open>emergency\<close> case-insensitively, \<open>Moderate\<close> otherwise,
  also when the fetched text is empty.
\<close>

theorem impact_label:
  assumes "fetch_executive_orders fuel w sm s = Some (Inr orders, s')"
  shows "\<forall>ord\<in>set orders.
           Impact ord =
             (if contains_ci ''emergency'' (Full_Text ord) then ''High'' else ''Moderate'') \<and>
           (Impact ord = ''High'' \<or> Impact ord = ''Moderate'') \<and>
           (Full_Text ord = [] \<longrightarrow> Impact ord = ''Moderate'')"
proof -
  have step: "\<And>item s0 ord s1. process_item w sm item s0 = (Inr (Some ord), s1) \<Longrightarrow>
      Impact ord = impact_of (Full_Text ord)"
    using process_item_fields by blast
  from assms have "fetch_pages fuel w sm 1 [] s = Some (Inr orders, s')"
    by (simp add: fetch_executive_orders_def)
  then have all: "\<forall>ord\<in>set orders. Impact ord = impact_of (Full_Text ord)"
    using fetch_pages_orders [of w sm "\<lambda>ord. Impact ord = impact_of (Full_Text ord)"] step
    by fastforce
  have empty: "\<not> contains_ci ''emergency'' []"
    by code_simp
  show ?thesis
  proof
    fix ord
    assume "ord \<in> set orders"
    with all have "Impact ord = impact_of (Full_Text ord)" by blast
    then have i: "Impact ord =
        (if contains_ci ''emergency'' (Full_Text ord) then ''High'' else ''Moderate'')"
      by (simp add: impact_of_contains)
    then show "Impact ord =
          (if contains_ci ''emergency'' (Full_Text ord) then ''High'' else ''Moderate'') \<and>
        (Impact ord = ''High'' \<or> Impact ord = ''Moderate'') \<and>
        (Full_Text ord = [] \<longrightarrow> Impact ord = ''Moderate'')"
      using empty by auto
  qed
qed

theorem impact_label_witness:
  "map_option fst (fetch_executive_orders 5 ex_world ex_summarizer initial_state) =
     Some (Inr ex_orders) \<and>
   Impact ex_order_a = ''High'' \<and> contains_ci ''emergency'' (Full_Text ex_order_a) \<and>
   Impact ex_order_c = ''Moderate'' \<and> \<not> contains_ci ''emergency'' (Full_Text ex_order_c) \<and>
   Impact ex_order_b = ''Moderate'' \<and> Full_Text ex_order_b = []"
proof -
  from ex_run_state obtain s' where
    "fetch_executive_orders 5 ex_world ex_summarizer initial_state = Some (Inr ex_orders, s')"
    by blast
  from impact_label [OF this]
  have a: "Impact ex_order_a =
      (if contains_ci ''emergency'' (Full_Text ex_order_a) then ''High'' else ''Moderate'')"
    and c: "Impact ex_order_c =
      (if contains_ci ''emergency'' (Full_Text ex_order_c) then ''High'' else ''Moderate'')"
    by (simp_all add: ex_orders_def)
  have "Impact ex_order_a = ''High''" by (simp add: ex_order_a_def)
  with a have "contains_ci ''emergency'' (Full_Text ex_order_a)" by (simp split: if_splits)
  moreover have "Impact ex_order_c = ''Moderate''" by (simp add: ex_order_c_def)
  with c have "\<not> contains_ci ''emergency'' (Full_Text ex_order_c)" by (simp split: if_splits)
  ultimately show ?thesis
    using ex_run_orders by (simp add: ex_order_a_def ex_order_b_def ex_order_c_def)
qed

text \<open>
  C5, as stated: the summary of every order is the model's \<open>summary_text\<close> for the
  order's fetched text. On the example site it is not: for order C the model raises and
  the summary is the error text, for order B the text is empty, the model is not asked,
  and the summary is empty although the model has an answer for the empty text.
\<close>

theorem summary_counterexample:
  "map_option fst (fetch_executive_orders 5 ex_world ex_summarizer initial_state) =
     Some (Inr ex_orders) \<and>
   ex_order_c \<in> set ex_orders \<and>
   model_summary ex_summarizer (Full_Text ex_order_c) = Inl (PyException ''RuntimeError'') \<and>
   Summary ex_order_c = ''Summary generation error.'' \<and>
   ex_order_b \<in> set ex_orders \<and>
   model_summary ex_summarizer (Full_Text ex_order_b) = Inr ''Declares an emergency.'' \<and>
   Summary ex_order_b = ''''"
proof -
  have "model_summary ex_summarizer (Full_Text ex_order_c) = Inl (PyException ''RuntimeError'')"
    by code_simp
  moreover have
    "model_summary ex_summarizer (Full_Text ex_order_b) = Inr ''Declares an emergency.''"
    by code_simp
  ultimately show ?thesis
    using ex_run_orders by (simp add: ex_orders_def ex_order_c_def ex_order_b_def)
qed

text \<open>
  C5, amended. The summary of every order of a run is the model's \<open>summary_text\<close>
  for the order's fetched text when that text is not empty and the call (with the reading
  of its first \<open>summary_text\<close>) succeeds; it is the empty string when the fetched text
  is empty, and \<open>Summary generation error.\<close> when the call raises.
\<close>

theorem summary_by_case:
  assumes "fetch_executive_orders fuel w sm s = Some (Inr orders, s')"
  shows "\<forall>ord\<in>set orders.
           Summary ord =
             (if Full_Text ord = [] then ''''
              else case model_summary sm (Full_Text ord) of
                     Inr summary \<Rightarrow> summary
                   | Inl e \<Rightarrow> ''Summary generation error.'')"
proof -
  let ?P = "\<lambda>ord. Summary ord =
      (if Full_Text ord = [] then ''''
       else case model_summary sm (Full_Text ord) of
              Inr summary \<Rightarrow> summary
            | Inl e \<Rightarrow> ''Summary generation error.'')"
  have step: "\<And>item s0 ord s1. process_item w sm item s0 = (Inr (Some ord), s1) \<Longrightarrow> ?P ord"
  proof -
    fix item s0 ord s1
    assume "process_item w sm item s0 = (Inr (Some ord), s1)"
    from process_item_fields [OF this] show "?P ord"
      by (simp split: sum.splits)
  qed
  from assms have "fetch_pages fuel w sm 1 [] s = Some (Inr orders, s')"
    by (simp add: fetch_executive_orders_def)
  then show ?thesis
    using fetch_pages_orders [of w sm ?P fuel 1 "[]" s orders s'] step by simp
qed

theorem summary_by_case_witness:
  "map_option fst (fetch_executive_orders 5 ex_world ex_summarizer initial_state) =
     Some (Inr ex_orders) \<and>
   Full_Text ex_order_a \<noteq> [] \<and>
   model_summary ex_summarizer (Full_Text ex_order_a) = Inr (Summary ex_order_a) \<and>
   Full_Text ex_order_b = [] \<and> Summary ex_order_b = [] \<and>
   model_summary ex_summarizer (Full_Text ex_order_c) = Inl (PyException ''RuntimeError'') \<and>
   Summary ex_order_c = ''Summary generation error.''"
proof -
  from ex_run_state obtain s' where
    "fetch_executive_orders 5 ex_world ex_summarizer initial_state = Some (Inr ex_orders, s')"
    by blast
  from summary_by_case [OF this] have "ex_order_a \<in> set ex_orders \<longrightarrow>
    Summary ex_order_a =
      (if Full_Text ex_order_a = [] then ''''
       else case model_summary ex_summarizer (Full_Text ex_order_a) of
              Inr summary \<Rightarrow> summary
            | Inl e \<Rightarrow> ''Summary generation error.'')"
    by blast
  moreover have "ex_order_a \<in> set ex_orders"
    by (simp add: ex_orders_def)
  moreover have ne: "Full_Text ex_order_a \<noteq> []"
    by code_simp
  ultimately have a: "Summary ex_order_a =
      (case model_summary ex_summarizer (Full_Text ex_order_a) of
         Inr summary \<Rightarrow> summary
       | Inl e \<Rightarrow> ''Summary generation error.'')"
    by simp
  have ma: "model_summary ex_summarizer (Full_Text ex_order_a) = Inr ''Declares an emergency.''"
    by code_simp
  have sa: "model_summary ex_summarizer (Full_Text ex_order_a) = Inr (Summary ex_order_a)"
    unfolding a unfolding ma by simp
  have b: "Full_Text ex_order_b = [] \<and> Summary ex_order_b = []"
    by (simp add: ex_order_b_def)
  have mc: "model_summary ex_summarizer (Full_Text ex_order_c) = Inl (PyException ''RuntimeError'')"
    by code_simp
  have c: "Summary ex_order_c = ''Summary generation error.''"
    by (simp add: ex_order_c_def)
  show ?thesis
    using ex_run_orders ne sa b mc c by (intro conjI) blast+
qed

text \<open>
  C2. The date filter of the table is a pure row filter. When there is an order, the table
  shown has one row for each order whose date is on or after the filter date and for no
  other, in the order of the list, and each row holds the date, title, link, summary and
  impact of its order unchanged. When there is no order, no date is asked for and no
  table is shown.
\<close>

theorem date_filter_rows:
  "(orders \<noteq> [] \<longrightarrow>
      dashboard orders date_filter s =
        (Inr (),
         emit (Show_dataframe
                 \<lparr>columns = [''Date'', ''Title'', ''Link'', ''Summary'', ''Impact''],
                  rows = map (\<lambda>ord. [DateCell (Date ord), StrCell (Title ord),
                                      StrCell (Link ord), StrCell (Summary ord),
                                      StrCell (Impact ord)])
                           (filter (\<lambda>ord. date_ge (Date ord) date_filter) orders)\<rparr>)
           (st_write Overview (emit (Date_input date_filter) s)))) \<and>
   dashboard [] date_filter s = (Inr (), st_write No_orders_found s)"
proof (intro conjI impI)
  assume "orders \<noteq> []"
  then show "dashboard orders date_filter s =
        (Inr (),
         emit (Show_dataframe
                 \<lparr>columns = [''Date'', ''Title'', ''Link'', ''Summary'', ''Impact''],
                  rows = map (\<lambda>ord. [DateCell (Date ord), StrCell (Title ord),
                                      StrCell (Link ord), StrCell (Summary ord),
                                      StrCell (Impact ord)])
                           (filter (\<lambda>ord. date_ge (Date ord) date_filter) orders)\<rparr>)
           (st_write Overview (emit (Date_input date_filter) s)))"
    by (rule dashboard_table)
next
  show "dashboard [] date_filter s = (Inr (), st_write No_orders_found s)"
    by (rule dashboard_no_orders)
qed

theorem date_filter_rows_witness:
  "ex_orders \<noteq> [] \<and>
   shown_tables (trace (snd (dashboard ex_orders (MkDate 2025 1 20) initial_state))) =
     [\<lparr>columns = [''Date'', ''Title'', ''Link'', ''Summary'', ''Impact''],
       rows =
         [[DateCell (MkDate 2025 1 20), StrCell ''Order A'', StrCell ''https://wh.gov/a'',
           StrCell ''Declares an emergency.'', StrCell ''High''],
          [DateCell (MkDate 2025 3 4), StrCell ''Order B'', StrCell ''https://wh.gov/b'',
           StrCell '''', StrCell ''Moderate''],
          [DateCell (MkDate 2025 1 20), StrCell ''Order A again'', StrCell ''https://wh.gov/a'',
           StrCell ''Declares an emergency.'', StrCell ''High''],
          [DateCell (MkDate 2025 3 4), StrCell ''Order D'', StrCell ''https://wh.gov/d'',
           StrCell '''', StrCell ''Moderate'']]\<rparr>] \<and>
   map Date ex_orders =
     [MkDate 2025 1 20, MkDate 2025 3 4, MkDate 2024 12 31, MkDate 2025 1 20, MkDate 2025 3 4]"
proof -
  have ne: "ex_orders \<noteq> []" by (simp add: ex_orders_def)
  have kept: "filter (\<lambda>ord. date_ge (Date ord) (MkDate 2025 1 20)) ex_orders =
      [ex_order_a, ex_order_b, ex_order_a2, ex_order_d]"
    by (simp add: ex_orders_def ex_order_a_def ex_order_b_def ex_order_c_def ex_order_a2_def
        ex_order_d_def date_ge_def date_le_def)
  have dates: "map Date ex_orders =
     [MkDate 2025 1 20, MkDate 2025 3 4, MkDate 2024 12 31, MkDate 2025 1 20, MkDate 2025 3 4]"
    by (simp add: ex_orders_def ex_order_a_def ex_order_b_def ex_order_c_def ex_order_a2_def
        ex_order_d_def)
  from date_filter_rows [of ex_orders "MkDate 2025 1 20" initial_state] ne
  have "dashboard ex_orders (MkDate 2025 1 20) initial_state =
      (Inr (),
       emit (Show_dataframe
               \<lparr>columns = [''Date'', ''Title'', ''Link'', ''Summary'', ''Impact''],
                rows = map (\<lambda>ord. [DateCell (Date ord), StrCell (Title ord),
                                    StrCell (Link ord), StrCell (Summary ord),
                                    StrCell (Impact ord)])
                         (filter (\<lambda>ord. date_ge (Date ord) (MkDate 2025 1 20)) ex_orders)\<rparr>)
         (st_write Overview (emit (Date_input (MkDate 2025 1 20)) initial_state)))"
    by blast
  then have "shown_tables (trace (snd (dashboard ex_orders (MkDate 2025 1 20) initial_state))) =
      [\<lparr>columns = [''Date'', ''Title'', ''Link'', ''Summary'', ''Impact''],
        rows = map (\<lambda>ord. [DateCell (Date ord), StrCell (Title ord),
                            StrCell (Link ord), StrCell (Summary ord),
                            StrCell (Impact ord)])
                 [ex_order_a, ex_order_b, ex_order_a2, ex_order_d]\<rparr>]"
    unfolding kept by (simp add: initial_state_def)
  then show ?thesis
    using ne dates
    by (simp add: ex_order_a_def ex_order_b_def ex_order_a2_def ex_order_d_def)
qed






text \<open>
  C4. The cache is empty when the process starts and only grows: in a later state (after any
  effects and any calls of \<open>fetch_order_text\<close>, so after any part of a run) every entry
  is still there with the same text. Once \<open>fetch_order_text\<close> has extracted the text
  of a URL (a cache miss answered with status 200 and a page that parses), every later call
  with that URL returns the same text, whatever the world would answer, and requests
  nothing.
\<close>

theorem cache_idempotent:
  "order_text_cache initial_state = Map.empty \<and>
   (later s1 s2 \<longrightarrow> order_text_cache s1 \<subseteq>\<^sub>m order_text_cache s2) \<and>
   (fetch_executive_orders fuel w sm s1 = Some (r, s2) \<longrightarrow> later s1 s2) \<and>
   (order_text_cache s u = None \<and>
    requests_get w (trace (st_write (Fetching_detail u) s)) u = Response 200 (Parsed sp) \<and>
    later (snd (fetch_order_text w u s)) s' \<longrightarrow>
      fst (fetch_order_text w u s) = Inr (extract_order_text sp) \<and>
      fetch_order_text w' u s' = (Inr (extract_order_text sp), st_write (Using_cached u) s') \<and>
      http_gets (trace (snd (fetch_order_text w' u s'))) = http_gets (trace s'))"
proof (intro conjI impI)
  show "order_text_cache initial_state = Map.empty"
    by (simp add: initial_state_def)
next
  assume "later s1 s2"
  then show "order_text_cache s1 \<subseteq>\<^sub>m order_text_cache s2" by (rule later_cache)
next
  assume "fetch_executive_orders fuel w sm s1 = Some (r, s2)"
  then have "fetch_pages fuel w sm 1 [] s1 = Some (r, s2)"
    by (simp add: fetch_executive_orders_def)
  then show "later s1 s2" by (rule later_fetch_pages)
next
  assume a: "order_text_cache s u = None \<and>
    requests_get w (trace (st_write (Fetching_detail u) s)) u = Response 200 (Parsed sp) \<and>
    later (snd (fetch_order_text w u s)) s'"
  then have first: "fetch_order_text w u s =
       (Inr (extract_order_text sp),
        (emit (HttpGet u) (st_write (Fetching_detail u) s))
          \<lparr>order_text_cache := (order_text_cache s)(u \<mapsto> extract_order_text sp)\<rparr>)"
    by (simp add: fetch_order_text_parsed)
  then have "order_text_cache (snd (fetch_order_text w u s)) u = Some (extract_order_text sp)"
    by simp
  moreover from a have
    "order_text_cache (snd (fetch_order_text w u s)) \<subseteq>\<^sub>m order_text_cache s'"
    by (simp add: later_cache)
  ultimately have hit: "order_text_cache s' u = Some (extract_order_text sp)"
    by (metis domI map_le_def)
  show "fst (fetch_order_text w u s) = Inr (extract_order_text sp)"
    using first by simp
  show again:
    "fetch_order_text w' u s' = (Inr (extract_order_text sp), st_write (Using_cached u) s')"
    using hit by (rule fetch_order_text_cached)
  show "http_gets (trace (snd (fetch_order_text w' u s'))) = http_gets (trace s')"
    unfolding again by simp
qed

theorem cache_idempotent_witness:
  "order_text_cache initial_state ''https://wh.gov/a'' = None \<and>
   fst (fetch_order_text ex_world ''https://wh.gov/a'' initial_state) = Inr emergency_text \<and>
   fst (fetch_order_text down_world ''https://wh.gov/a''
          (snd (fetch_order_text ex_world ''https://wh.gov/b''
             (snd (fetch_order_text ex_world ''https://wh.gov/a'' initial_state))))) =
     Inr emergency_text \<and>
   http_gets (trace (snd (fetch_order_text down_world ''https://wh.gov/a''
          (snd (fetch_order_text ex_world ''https://wh.gov/b''
             (snd (fetch_order_text ex_world ''https://wh.gov/a'' initial_state))))))) =
     [''https://wh.gov/a'', ''https://wh.gov/b'']"
proof -
  let ?a = "''https://wh.gov/a''"
  let ?s1 = "snd (fetch_order_text ex_world ?a initial_state)"
  let ?s2 = "snd (fetch_order_text ex_world ''https://wh.gov/b'' ?s1)"
  have miss: "order_text_cache initial_state ?a = None"
    by (simp add: initial_state_def)
  have get: "requests_get ex_world (trace (st_write (Fetching_detail ?a) initial_state)) ?a =
      Response 200 (Parsed ex_soup_a)"
    by (simp add: ex_world_def page_url_def base_url_def)
  have l: "later ?s1 ?s2"
    by (intro later_fetch later_refl)
  have ex: "extract_order_text ex_soup_a = emergency_text"
    by code_simp
  have gets: "http_gets (trace ?s2) = [?a, ''https://wh.gov/b'']"
    by code_simp
  from cache_idempotent [of s1 s2 fuel ex_world sm r initial_state ?a ex_soup_a ?s2 down_world]
    miss get l
  have "fst (fetch_order_text ex_world ?a initial_state) = Inr (extract_order_text ex_soup_a) \<and>
      fetch_order_text down_world ?a ?s2 =
        (Inr (extract_order_text ex_soup_a), st_write (Using_cached ?a) ?s2) \<and>
      http_gets (trace (snd (fetch_order_text down_world ?a ?s2))) = http_gets (trace ?s2)"
    by blast
  then show ?thesis
    using miss gets by (simp add: ex)
qed

text \<open>
  C7. No failed request is retried. When the listing request of a page answers with a
  status other than 200, the pagination ends at once with the orders collected so far,
  having requested that URL once. When the detail request of a URL that is not cached
  fails, \<open>fetch_order_text\<close> returns the empty string after that one request, and
  leaves the cache as it was, so a later call with the same URL requests it again. The
  body of the item loop requests at most one URL for an item.
\<close>

theorem no_retry:
  "(requests_get w (trace (st_write (Fetching_page (page_url page)) s)) (page_url page) =
      Response status body \<and> status \<noteq> 200 \<longrightarrow>
      (\<exists>s'. fetch_pages (Suc fuel) w sm page orders s = Some (Inr orders, s') \<and>
            http_gets (trace s') = http_gets (trace s) @ [page_url page])) \<and>
   (order_text_cache s u = None \<and>
    failed (requests_get w (trace (st_write (Fetching_detail u) s)) u) \<longrightarrow>
      fst (fetch_order_text w u s) = Inr '''' \<and>
      http_gets (trace (snd (fetch_order_text w u s))) = http_gets (trace s) @ [u] \<and>
      order_text_cache (snd (fetch_order_text w u s)) = order_text_cache s \<and>
      http_gets (trace (snd (fetch_order_text w' u (snd (fetch_order_text w u s))))) =
        http_gets (trace s) @ [u, u]) \<and>
   length (http_gets (trace (snd (process_item w sm item s)))) \<le> length (http_gets (trace s)) + 1"
proof (intro conjI impI)
  assume a: "requests_get w (trace (st_write (Fetching_page (page_url page)) s)) (page_url page) =
      Response status body \<and> status \<noteq> 200"
  let ?s' = "st_write (Failed_page (page_url page) status)
      (emit (HttpGet (page_url page)) (st_write (Fetching_page (page_url page)) s))"
  from a have "fetch_pages (Suc fuel) w sm page orders s = Some (Inr orders, ?s')"
    by (simp add: Let_def)
  moreover have "http_gets (trace ?s') = http_gets (trace s) @ [page_url page]"
    by simp
  ultimately show "\<exists>s'. fetch_pages (Suc fuel) w sm page orders s = Some (Inr orders, s') \<and>
      http_gets (trace s') = http_gets (trace s) @ [page_url page]"
    by blast
next
  assume a: "order_text_cache s u = None \<and>
    failed (requests_get w (trace (st_write (Fetching_detail u) s)) u)"
  then obtain es where
    f: "fetch_order_text w u s =
          (Inr '''', s\<lparr>trace := trace s @ Write (Fetching_detail u) # HttpGet u # es\<rparr>)" and
    es: "http_gets es = []"
    using fetch_order_text_failed by blast
  let ?s1 = "snd (fetch_order_text w u s)"
  show "fst (fetch_order_text w u s) = Inr ''''" using f by simp
  show gets: "http_gets (trace ?s1) = http_gets (trace s) @ [u]"
    using f es by simp
  show cache: "order_text_cache ?s1 = order_text_cache s"
    using f by simp
  from fetch_order_text_trace [of w' u ?s1] cache a obtain es2 where
    "trace (snd (fetch_order_text w' u ?s1)) = trace ?s1 @ es2" "http_gets es2 = [u]"
    by auto
  then show "http_gets (trace (snd (fetch_order_text w' u ?s1))) = http_gets (trace s) @ [u, u]"
    using gets by simp
next
  obtain x s' where p: "process_item w sm item s = (x, s')"
    by (cases "process_item w sm item s")
  with process_item_no_exception [of w sm item s] obtain y where "x = Inr y"
    by (cases x) auto
  with p process_item_trace [of w sm item s y s'] obtain es where
    "trace s' = trace s @ es" "length (http_gets es) \<le> 1"
    by auto
  with p show "length (http_gets (trace (snd (process_item w sm item s)))) \<le>
      length (http_gets (trace s)) + 1"
    by simp
qed

theorem no_retry_witness:
  "map_option fst (fetch_pages 1 ex_world ex_summarizer 2 ex_orders initial_state) =
     Some (Inr ex_orders) \<and>
   map_option (http_gets \<circ> trace \<circ> snd)
     (fetch_pages 1 ex_world ex_summarizer 2 ex_orders initial_state) = Some [page_url 2] \<and>
   order_text_cache initial_state ''https://wh.gov/b'' = None \<and>
   fst (fetch_order_text ex_world ''https://wh.gov/b'' initial_state) = Inr '''' \<and>
   http_gets (trace (snd (fetch_order_text ex_world ''https://wh.gov/b'' initial_state))) =
     [''https://wh.gov/b''] \<and>
   http_gets (trace (snd (fetch_order_text ex_world ''https://wh.gov/b''
      (snd (fetch_order_text ex_world ''https://wh.gov/b'' initial_state))))) =
     [''https://wh.gov/b'', ''https://wh.gov/b'']"
proof -
  let ?b = "''https://wh.gov/b''"
  have page: "requests_get ex_world
      (trace (st_write (Fetching_page (page_url 2)) initial_state)) (page_url 2) =
      Response 404 (Parsed ex_soup_c) \<and> (404::nat) \<noteq> 200"
    by (simp add: ex_world_page_2)
  have miss: "order_text_cache initial_state ?b = None"
    by (simp add: initial_state_def)
  have fail: "failed (requests_get ex_world (trace (st_write (Fetching_detail ?b) initial_state)) ?b)"
    by (simp add: ex_world_b failed_def)
  have none: "http_gets (trace initial_state) = []"
    by (simp add: initial_state_def)
  note inst = no_retry [of ex_world 2 initial_state 404 "Parsed ex_soup_c" 0 ex_summarizer
      ex_orders ?b ex_world]
  from inst page obtain s' where
    "fetch_pages (Suc 0) ex_world ex_summarizer 2 ex_orders initial_state =
       Some (Inr ex_orders, s')"
    "http_gets (trace s') = http_gets (trace initial_state) @ [page_url 2]"
    by blast
  then have p: "map_option fst (fetch_pages 1 ex_world ex_summarizer 2 ex_orders initial_state) =
       Some (Inr ex_orders) \<and>
     map_option (http_gets \<circ> trace \<circ> snd)
       (fetch_pages 1 ex_world ex_summarizer 2 ex_orders initial_state) = Some [page_url 2]"
    using none by simp
  from inst miss fail have
    "fst (fetch_order_text ex_world ?b initial_state) = Inr '''' \<and>
     http_gets (trace (snd (fetch_order_text ex_world ?b initial_state))) =
       http_gets (trace initial_state) @ [?b] \<and>
     http_gets (trace (snd (fetch_order_text ex_world ?b
        (snd (fetch_order_text ex_world ?b initial_state))))) =
       http_gets (trace initial_state) @ [?b, ?b]"
    by blast
  with p miss none show ?thesis by simp
qed

text \<open>
  C3, as stated: failure handling never aborts the run. When the site cannot be reached the
  listing request raises outside every \<open>try\<close>: the exception leaves \<open>main\<close> after
  one request and no table is shown.
\<close>

theorem never_aborts_counterexample:
  "map_option fst (main 5 down_world ex_summarizer (MkDate 2025 1 20) initial_state) =
     Some (Inl (PyException ''ConnectionError'')) \<and>
   map_option (shown_tables \<circ> trace \<circ> snd)
     (main 5 down_world ex_summarizer (MkDate 2025 1 20) initial_state) = Some [] \<and>
   map_option (http_gets \<circ> trace \<circ> snd)
     (main 5 down_world ex_summarizer (MkDate 2025 1 20) initial_state) = Some [page_url 1]"
  by code_simp

text \<open>
  C3, amended. A listing item without its \<open>h2\<close>, without a link in it, or without a
  \<open>time\<close> whose \<open>datetime\<close> parses is skipped with a message, and the loop goes on
  with the remaining items and the same orders. A detail fetch that is not cached and
  fails returns the empty string. Every other item is recorded, and its summary is
  \<open>Summary generation error.\<close> when its text is not empty and the summarisation
  raises. None of these failures aborts the run: the item loop never raises, and when no
  listing request raises neither \<open>fetch_executive_orders\<close> nor \<open>main\<close> does.
\<close>

theorem failures_skipped:
  "(unusable w item \<longrightarrow>
      (\<exists>m. process_item w sm item s = (Inr None, st_write m s) \<and>
           process_items w sm (item # items) page_orders s =
             process_items w sm items page_orders (st_write m s))) \<and>
   (order_text_cache s u = None \<and>
    failed (requests_get w (trace (st_write (Fetching_detail u) s)) u) \<longrightarrow>
      fst (fetch_order_text w u s) = Inr '''') \<and>
   (\<not> unusable w item \<longrightarrow>
      (\<exists>ord s1. process_item w sm item s = (Inr (Some ord), s1) \<and>
           process_items w sm (item # items) page_orders s =
             process_items w sm items (page_orders @ [ord]) s1 \<and>
           (Full_Text ord \<noteq> [] \<and> isl (model_summary sm (Full_Text ord)) \<longrightarrow>
              Summary ord = ''Summary generation error.''))) \<and>
   fst (process_items w sm items page_orders s) \<noteq> Inl e \<and>
   ((\<forall>tr p. \<not> listing_raises (requests_get w tr (page_url p))) \<longrightarrow>
      fetch_executive_orders fuel w sm s \<noteq> Some (Inl e, s') \<and>
      main fuel w sm date_filter s \<noteq> Some (Inl e, s'))"
proof (intro conjI impI)
  assume "unusable w item"
  then obtain m where m: "process_item w sm item s = (Inr None, st_write m s)"
    using process_item_unusable by blast
  then have "process_items w sm (item # items) page_orders s =
      process_items w sm items page_orders (st_write m s)"
    by simp
  with m show "\<exists>m. process_item w sm item s = (Inr None, st_write m s) \<and>
      process_items w sm (item # items) page_orders s =
        process_items w sm items page_orders (st_write m s)"
    by blast
next
  assume "order_text_cache s u = None \<and>
    failed (requests_get w (trace (st_write (Fetching_detail u) s)) u)"
  then obtain es where "fetch_order_text w u s =
      (Inr '''', s\<lparr>trace := trace s @ Write (Fetching_detail u) # HttpGet u # es\<rparr>)"
    using fetch_order_text_failed by blast
  then show "fst (fetch_order_text w u s) = Inr ''''" by simp
next
  assume "\<not> unusable w item"
  then obtain ord s1 where p: "process_item w sm item s = (Inr (Some ord), s1)"
    using process_item_usable by blast
  then have loop: "process_items w sm (item # items) page_orders s =
      process_items w sm items (page_orders @ [ord]) s1"
    by simp
  have "Full_Text ord \<noteq> [] \<and> isl (model_summary sm (Full_Text ord)) \<longrightarrow>
      Summary ord = ''Summary generation error.''"
    using process_item_fields [OF p] by (auto split: sum.splits)
  with p loop show "\<exists>ord s1. process_item w sm item s = (Inr (Some ord), s1) \<and>
      process_items w sm (item # items) page_orders s =
        process_items w sm items (page_orders @ [ord]) s1 \<and>
      (Full_Text ord \<noteq> [] \<and> isl (model_summary sm (Full_Text ord)) \<longrightarrow>
         Summary ord = ''Summary generation error.'')"
    by blast
next
  show "fst (process_items w sm items page_orders s) \<noteq> Inl e"
    by (rule process_items_no_exception)
next
  assume calm: "\<forall>tr p. \<not> listing_raises (requests_get w tr (page_url p))"
  then have pages: "fetch_pages fuel w sm page orders s0 \<noteq> Some (Inl e0, s3)"
    for page orders s0 e0 s3
    using fetch_pages_only_listing_raises [of w] by blast
  then show f: "fetch_executive_orders fuel w sm s \<noteq> Some (Inl e, s')"
    by (simp add: fetch_executive_orders_def)
  show "main fuel w sm date_filter s \<noteq> Some (Inl e, s')"
  proof
    assume m: "main fuel w sm date_filter s = Some (Inl e, s')"
    let ?start = "st_write Initializing_summarizer
        (st_write Fetching_orders (emit Show_title (emit Meta_refresh s)))"
    from main_cases [OF m] obtain r1 s2 where
      r: "fetch_executive_orders fuel w sm ?start = Some (r1, s2)" and
      d: "case r1 of Inl e1 \<Rightarrow> (Inl e :: py_exception + unit) = Inl e1 \<and> s' = s2
          | Inr os \<Rightarrow> dashboard os date_filter s2 = (Inl e, s')"
      by blast
    show False
    proof (cases r1)
      case (Inl e1)
      with r pages [of 1 "[]" ?start e1 s2] show False
        by (simp add: fetch_executive_orders_def)
    next
      case (Inr os)
      with d dashboard_returns [of os date_filter s2] show False by simp
    qed
  qed
qed

theorem failures_skipped_witness:
  "unusable ex_world (Li_Item None (ex_time ''2025-01-20'')) \<and>
   \<not> unusable ex_world (Li_Item (ex_h2 ''Order C'' ''https://wh.gov/c'') (ex_time ''2024-12-31'')) \<and>
   fst (process_items ex_world ex_summarizer
          [Li_Item None (ex_time ''2025-01-20''),
           Li_Item (ex_h2 ''Order C'' ''https://wh.gov/c'') (ex_time ''2024-12-31'')]
          [] initial_state) = Inr [ex_order_c] \<and>
   isl (model_summary ex_summarizer (Full_Text ex_order_c)) \<and>
   Summary ex_order_c = ''Summary generation error.'' \<and>
   fst (fetch_order_text ex_world ''https://wh.gov/b'' initial_state) = Inr '''' \<and>
   map_option fst (main 5 ex_world ex_summarizer (MkDate 2025 1 20) initial_state) =
     Some (Inr ())"
proof -
  let ?i0 = "Li_Item None (ex_time ''2025-01-20'')"
  let ?ic = "Li_Item (ex_h2 ''Order C'' ''https://wh.gov/c'') (ex_time ''2024-12-31'')"
  let ?b = "''https://wh.gov/b''"
  have u0: "unusable ex_world ?i0"
    by (simp add: unusable_def item_link_def)
  have uc: "\<not> unusable ex_world ?ic"
    by (simp add: unusable_def item_link_def item_datetime_def ex_h2_def ex_time_def
        ex_world_def)
  have calm: "\<forall>tr p. \<not> listing_raises (requests_get ex_world tr (page_url p))"
    by (simp add: ex_world_listing)
  have miss: "order_text_cache initial_state ?b = None"
    by (simp add: initial_state_def)
  have fail: "failed (requests_get ex_world (trace (st_write (Fetching_detail ?b) initial_state)) ?b)"
    by (simp add: ex_world_b failed_def)
  have both: "fst (process_items ex_world ex_summarizer [?i0, ?ic] [] initial_state) =
      Inr [ex_order_c]"
    by code_simp
  have mc: "isl (model_summary ex_summarizer (Full_Text ex_order_c))"
    by code_simp
  have sc: "Summary ex_order_c = ''Summary generation error.''"
    by (simp add: ex_order_c_def)
  obtain r s' where m: "main 5 ex_world ex_summarizer (MkDate 2025 1 20) initial_state = Some (r, s')"
    using ex_main by (cases "main 5 ex_world ex_summarizer (MkDate 2025 1 20) initial_state") auto
  note inst = failures_skipped [of ex_world ?i0 ex_summarizer initial_state "[?ic]" "[]" ?b]
  from inst miss fail have b: "fst (fetch_order_text ex_world ?b initial_state) = Inr ''''"
    by blast
  have "main 5 ex_world ex_summarizer (MkDate 2025 1 20) initial_state \<noteq> Some (Inl e, s')" for e
    using failures_skipped [where w = ex_world and sm = ex_summarizer and s = initial_state
        and fuel = 5 and date_filter = "MkDate 2025 1 20" and e = e and s' = s'] calm
    by blast
  with m have "\<not> isl r" by (cases r) auto
  then have "r = Inr ()" by (cases r) auto
  with m have run: "map_option fst (main 5 ex_world ex_summarizer (MkDate 2025 1 20) initial_state) =
      Some (Inr ())"
    by simp
  show ?thesis
    using u0 uc both mc sc b run by (intro conjI)
qed

end
